theory Spec2Isabelle
  imports Main
begin

section \<open>The Zookeeper coordination layer of SCION (lib/zookeeper.py)\<close>

text \<open>
  The Kazoo client library is external to the repository. Every call into it is
  modelled by its outcome, supplied by the environment: either the call returns, or it
  raises one of Kazoo's exceptions. The wrapper code of \<^verbatim>\<open>lib/zookeeper.py\<close> is
  translated function by function; a Python exception is a value \<open>Inl e\<close>, and,
  as in Python, every mutation made before the exception is raised persists, so each
  operation returns its outcome together with the state it leaves behind.
\<close>

subsection \<open>Exceptions\<close>

text \<open>
  The exceptions of Kazoo that the module imports and handles; \<open>OtherKazooError\<close>
  stands for any exception that no handler of the module names.
\<close>

datatype kz_exc =
    ConnectionLoss
  | SessionExpiredError
  | NoNodeError
  | NodeExistsError
  | LockTimeout
  | OtherKazooError

text \<open>
  The module's own exceptions (\<^verbatim>\<open>ZkNoConnection\<close>, \<^verbatim>\<open>ZkNoNodeError\<close>,
  \<^verbatim>\<open>ZkRetryLimit\<close> with the count its message carries), a Kazoo exception that
  no handler caught and that therefore propagates to the caller, and Python's
  \<^verbatim>\<open>TypeError\<close>, raised when \<^verbatim>\<open>None\<close> is subscripted.
\<close>

datatype error =
    ZkNoConnection
  | ZkNoNodeError
  | ZkRetryLimit int
  | Uncaught kz_exc
  | TypeError

text \<open>
  The recurring handler
  \<^verbatim>\<open>except (ConnectionLoss, SessionExpiredError): raise ZkNoConnection from None\<close>:
  what an exception of Kazoo becomes when this is the only handler in scope.
\<close>

definition conn_error :: "kz_exc \<Rightarrow> error" where
  "conn_error e =
     (if e = ConnectionLoss \<or> e = SessionExpiredError then ZkNoConnection else Uncaught e)"

subsection \<open>The client: class Zookeeper\<close>

datatype KazooState = CONNECTED | SUSPENDED | LOST

text \<open>
  The variable \<^verbatim>\<open>old_state\<close> of the state worker: the string \<^verbatim>\<open>"startup"\<close>
  at first, a Kazoo state afterwards.
\<close>

datatype worker_state = Startup | Seen KazooState

text \<open>
  A Kazoo lock object as far as the module touches it: the field
  \<^verbatim>\<open>is_acquired\<close> that \<^verbatim>\<open>release_lock\<close> overwrites, and (a ghost field) the
  number of times \<^verbatim>\<open>release()\<close> has been called on it.
\<close>

record kz_lock =
  is_acquired :: bool
  release_calls :: nat

text \<open>A \<^verbatim>\<open>ZkParty\<close>: its path and its \<^verbatim>\<open>_autojoin\<close> flag.\<close>

record zk_party =
  party_path :: string
  party_autojoin :: bool

text \<open>
  The fields of \<^verbatim>\<open>Zookeeper.__init__\<close>. The two \<^verbatim>\<open>threading.Event\<close> objects
  are their flags; the queue is the list of pending states, oldest first; the dictionary
  of parties is an association list in insertion order; \<open>prefix\<close> is the path
  \<^verbatim>\<open>"/%s/%s" % (isd_as, srv_type)\<close>. A hook is present or \<^verbatim>\<open>None\<close>
  (\<open>on_connect\<close>, \<open>on_disconnect\<close>) and the number of times it has been invoked is
  kept in a ghost counter.
\<close>

record zookeeper =
  prefix :: string
  connected :: bool
  lock :: bool
  state_events :: "KazooState list"
  conn_epoch :: int
  parties :: "(string \<times> zk_party) list"
  zk_lock :: "kz_lock option"
  lock_epoch :: int
  on_connect :: bool
  on_disconnect :: bool
  on_connect_calls :: nat
  on_disconnect_calls :: nat

text \<open>
  The state that \<^verbatim>\<open>__init__\<close> builds, from the printed form of the ISD-AS, the
  service type and the two hooks.
\<close>

definition init :: "string \<Rightarrow> string \<Rightarrow> bool \<Rightarrow> bool \<Rightarrow> zookeeper" where
  "init isd_as srv_type on_c on_d =
     \<lparr> prefix = ''/'' @ isd_as @ ''/'' @ srv_type,
       connected = False, lock = False, state_events = [], conn_epoch = 0,
       parties = [], zk_lock = None, lock_epoch = 0,
       on_connect = on_c, on_disconnect = on_d,
       on_connect_calls = 0, on_disconnect_calls = 0 \<rparr>"

text \<open>
  \<^verbatim>\<open>_state_listener\<close>: the callback Kazoo runs on every state change. It increments
  the epoch, enqueues the state and returns \<^verbatim>\<open>False\<close>.
\<close>

definition state_listener :: "KazooState \<Rightarrow> zookeeper \<Rightarrow> bool \<times> zookeeper" where
  "state_listener new_state s =
     (False, s\<lparr> conn_epoch := conn_epoch s + 1,
                state_events := state_events s @ [new_state] \<rparr>)"

definition is_connected :: "zookeeper \<Rightarrow> bool" where
  "is_connected s = connected s"

text \<open>
  \<^verbatim>\<open>release_lock\<close>. The argument \<open>rel\<close> is the outcome of
  \<^verbatim>\<open>self._zk_lock.release()\<close>, should it be called: \<open>None\<close> when it returns,
  \<open>Some e\<close> when it raises \<open>e\<close>.
\<close>

definition release_lock :: "kz_exc option \<Rightarrow> zookeeper \<Rightarrow> (error + unit) \<times> zookeeper" where
  "release_lock rel s =
     (let s1 = s\<lparr> lock := False \<rparr> in
      case zk_lock s1 of
        None \<Rightarrow> (Inr (), s1)
      | Some l \<Rightarrow>
          if is_connected s1 then
            (let l1 = l\<lparr> release_calls := release_calls l + 1 \<rparr>;
                 s2 = s1\<lparr> zk_lock := Some l1 \<rparr> in
             case rel of
               None \<Rightarrow> (Inr (), s2\<lparr> zk_lock := Some (l1\<lparr> is_acquired := False \<rparr>) \<rparr>)
             | Some e \<Rightarrow>
                 if e = NoNodeError \<or> e = ConnectionLoss \<or> e = SessionExpiredError
                 then (Inr (), s2\<lparr> zk_lock := Some (l1\<lparr> is_acquired := False \<rparr>) \<rparr>)
                 else (Inl (Uncaught e), s2))
          else (Inr (), s1\<lparr> zk_lock := Some (l\<lparr> is_acquired := False \<rparr>) \<rparr>))"

text \<open>\<^verbatim>\<open>have_lock\<close>, with the outcome \<open>rel\<close> of the store-side release it may run.\<close>

definition have_lock :: "kz_exc option \<Rightarrow> zookeeper \<Rightarrow> (error + bool) \<times> zookeeper" where
  "have_lock rel s =
     (if is_connected s \<and> lock_epoch s = conn_epoch s \<and> lock s
      then (Inr True, s)
      else case release_lock rel s of
             (Inl e, s') \<Rightarrow> (Inl e, s')
           | (Inr u, s') \<Rightarrow> (Inr False, s'))"

text \<open>
  The store-side outcomes that \<^verbatim>\<open>release_lock\<close> expects: the release returns, or
  it fails with a missing node or a lost connection or session.
\<close>

definition release_expected :: "kz_exc option \<Rightarrow> bool" where
  "release_expected rel =
     (rel = None \<or> rel = Some NoNodeError \<or> rel = Some ConnectionLoss
      \<or> rel = Some SessionExpiredError)"

subsection \<open>Paths and the outcomes of Kazoo calls\<close>

type_synonym bytes = string

text \<open>\<^verbatim>\<open>os.path.join\<close> of two components, on a POSIX system.\<close>

definition os_path_join :: "string \<Rightarrow> string \<Rightarrow> string" where
  "os_path_join a b =
     (if b \<noteq> [] \<and> hd b = CHR ''/'' then b
      else if a = [] \<or> last a = CHR ''/'' then a @ b
      else a @ ''/'' @ b)"

text \<open>
  The environment: what each call into Kazoo does when the wrapper makes it. A call
  that returns nothing is \<open>None\<close> on success and \<open>Some e\<close> when it raises \<open>e\<close>;
  a call that returns a value is \<open>Inr v\<close> or \<open>Inl e\<close>. Party calls are indexed by
  the party's path, node calls by the node's path. \<open>kz_client_id\<close> is the
  attribute \<^verbatim>\<open>client_id\<close> of the Kazoo client: the session id and password of the
  session, or \<^verbatim>\<open>None\<close> while no session is established.
\<close>

record kazoo =
  kz_client_id :: "(int \<times> bytes) option"
  kz_ensure_path :: "string \<Rightarrow> kz_exc option"
  kz_party_join :: "string \<Rightarrow> kz_exc option"
  kz_party_members :: "string \<Rightarrow> kz_exc + string list"
  kz_set :: "string \<Rightarrow> bytes \<Rightarrow> kz_exc option"
  kz_create :: "string \<Rightarrow> bytes \<Rightarrow> kz_exc option"
  kz_get :: "string \<Rightarrow> kz_exc + bytes"
  kz_get_children :: "string \<Rightarrow> kz_exc + string list"
  kz_delete :: "string \<Rightarrow> kz_exc option"

subsection \<open>Parties and the state worker\<close>

text \<open>\<^verbatim>\<open>Zookeeper.ensure_path\<close>.\<close>

definition ensure_path :: "kazoo \<Rightarrow> string \<Rightarrow> bool \<Rightarrow> zookeeper \<Rightarrow> error + unit" where
  "ensure_path k p absolute s =
     (let full_path = (if \<not> absolute then os_path_join (prefix s) p else p) in
      case kz_ensure_path k full_path of
        None \<Rightarrow> Inr ()
      | Some e \<Rightarrow> Inl (conn_error e))"

text \<open>\<^verbatim>\<open>ZkParty.join\<close>, \<^verbatim>\<open>ZkParty.list\<close> and \<^verbatim>\<open>ZkParty.autojoin\<close>.\<close>

definition party_join :: "kazoo \<Rightarrow> zk_party \<Rightarrow> error + unit" where
  "party_join k p =
     (case kz_party_join k (party_path p) of
        None \<Rightarrow> Inr ()
      | Some e \<Rightarrow> Inl (conn_error e))"

definition party_list :: "kazoo \<Rightarrow> zk_party \<Rightarrow> error + string list" where
  "party_list k p =
     (case kz_party_members k (party_path p) of
        Inr ms \<Rightarrow> Inr (remdups ms)
      | Inl e \<Rightarrow> Inl (conn_error e))"

definition autojoin :: "kazoo \<Rightarrow> zk_party \<Rightarrow> error + unit" where
  "autojoin k p =
     (case (if party_autojoin p then party_join k p else Inr ()) of
        Inl e \<Rightarrow> Inl e
      | Inr u \<Rightarrow>
          (case party_list k p of
             Inl e \<Rightarrow> Inl e
           | Inr members \<Rightarrow> Inr ()))"

text \<open>
  The loop \<^verbatim>\<open>for party in list(self._parties.values()): party.autojoin()\<close>: it
  stops at the first exception.
\<close>

fun autojoin_all :: "kazoo \<Rightarrow> zk_party list \<Rightarrow> error + unit" where
  "autojoin_all k [] = Inr ()"
| "autojoin_all k (p # ps) =
     (case autojoin k p of
        Inl e \<Rightarrow> Inl e
      | Inr u \<Rightarrow> autojoin_all k ps)"

text \<open>The body of the \<^verbatim>\<open>try\<close> block of \<^verbatim>\<open>_state_connected\<close>.\<close>

definition connected_setup :: "kazoo \<Rightarrow> zookeeper \<Rightarrow> error + unit" where
  "connected_setup k s =
     (case ensure_path k (prefix s) True s of
        Inl e \<Rightarrow> Inl e
      | Inr u \<Rightarrow> autojoin_all k (map snd (parties s)))"

text \<open>
  \<^verbatim>\<open>_state_connected\<close>. Its first statement logs
  \<^verbatim>\<open>hex(self.kazoo.client_id[0])\<close>; the argument is evaluated before the
  \<^verbatim>\<open>try\<close> block is entered, and subscripting \<^verbatim>\<open>None\<close> raises
  \<^verbatim>\<open>TypeError\<close>, which no handler catches.
\<close>

definition state_connected :: "kazoo \<Rightarrow> zookeeper \<Rightarrow> (error + unit) \<times> zookeeper" where
  "state_connected k s =
     (case kz_client_id k of
        None \<Rightarrow> (Inl TypeError, s)
      | Some client_id \<Rightarrow>
          (case connected_setup k s of
             Inl e \<Rightarrow> if e = ZkNoConnection then (Inr (), s) else (Inl e, s)
           | Inr u \<Rightarrow>
               (let s1 = s\<lparr> connected := True \<rparr> in
                if on_connect s1
                then (Inr (), s1\<lparr> on_connect_calls := on_connect_calls s1 + 1 \<rparr>)
                else (Inr (), s1))))"

text \<open>\<^verbatim>\<open>_state_suspended\<close> and \<^verbatim>\<open>_state_lost\<close>.\<close>

definition state_suspended :: "zookeeper \<Rightarrow> (error + unit) \<times> zookeeper" where
  "state_suspended s =
     (let s1 = s\<lparr> connected := False \<rparr> in
      if on_disconnect s1
      then (Inr (), s1\<lparr> on_disconnect_calls := on_disconnect_calls s1 + 1 \<rparr>)
      else (Inr (), s1))"

definition state_lost :: "zookeeper \<Rightarrow> (error + unit) \<times> zookeeper" where
  "state_lost s =
     (let s1 = s\<lparr> connected := False \<rparr> in
      if on_disconnect s1
      then (Inr (), s1\<lparr> on_disconnect_calls := on_disconnect_calls s1 + 1 \<rparr>)
      else (Inr (), s1))"

text \<open>
  One iteration of the loop of \<^verbatim>\<open>_state_handler\<close>, from the worker's
  \<^verbatim>\<open>old_state\<close>. On an empty queue \<^verbatim>\<open>get()\<close> blocks and nothing changes. The
  result is the new \<^verbatim>\<open>old_state\<close>, or the exception that ends the worker.
\<close>

definition state_handler_step ::
  "kazoo \<Rightarrow> worker_state \<Rightarrow> zookeeper \<Rightarrow> (error + worker_state) \<times> zookeeper" where
  "state_handler_step k old_state s =
     (case state_events s of
        [] \<Rightarrow> (Inr old_state, s)
      | new_state # rest \<Rightarrow>
          (let s1 = s\<lparr> state_events := rest \<rparr> in
           if new_state = CONNECTED \<and> rest \<noteq> [] then (Inr old_state, s1)
           else if Seen new_state = old_state then (Inr old_state, s1)
           else
             (case (if new_state = CONNECTED then state_connected k s1
                    else if new_state = SUSPENDED then state_suspended s1
                    else state_lost s1) of
                (Inl e, s2) \<Rightarrow> (Inl e, s2)
              | (Inr u, s2) \<Rightarrow> (Inr (Seen new_state), s2))))"

text \<open>
  The operations on a client that the model covers, each with the outcomes of the Kazoo
  calls it may make, and a run of them from a worker state and a client state. The
  threads of the program interleave at the level of these operations.
\<close>

datatype action =
    Notify KazooState
  | Work kazoo
  | ReleaseLock "kz_exc option"
  | HaveLock "kz_exc option"

fun client_step :: "worker_state \<times> zookeeper \<Rightarrow> action \<Rightarrow> worker_state \<times> zookeeper" where
  "client_step (w, s) (Notify st) = (w, snd (state_listener st s))"
| "client_step (w, s) (Work k) =
     (case state_handler_step k w s of
        (Inl e, s') \<Rightarrow> (w, s')
      | (Inr w', s') \<Rightarrow> (w', s'))"
| "client_step (w, s) (ReleaseLock rel) = (w, snd (release_lock rel s))"
| "client_step (w, s) (HaveLock rel) = (w, snd (have_lock rel s))"

definition client_run :: "worker_state \<times> zookeeper \<Rightarrow> action list \<Rightarrow> worker_state \<times> zookeeper" where
  "client_run ws acts = foldl client_step ws acts"

fun is_notify :: "action \<Rightarrow> bool" where
  "is_notify (Notify st) = True"
| "is_notify a = False"

subsection \<open>The retry wrapper\<close>

text \<open>
  \<^verbatim>\<open>Zookeeper.retry\<close>. The loop state is the variable \<^verbatim>\<open>count\<close>, and a ghost
  counter \<open>n\<close> of the attempts made so far (the iterations that passed the limit
  check). In the iteration where \<^verbatim>\<open>count\<close> is \<open>i\<close>, \<open>wait i\<close> tells whether
  \<^verbatim>\<open>wait_connected\<close> returns (otherwise it raises \<^verbatim>\<open>ZkNoConnection\<close>) and
  \<open>f i\<close> is what the call of \<^verbatim>\<open>f\<close> does. The loop need not end when
  \<^verbatim>\<open>_retries\<close> is \<^verbatim>\<open>None\<close>: \<open>None\<close> as a result means that it runs forever.
\<close>

partial_function (option) retry_loop ::
  "int option \<Rightarrow> (int \<Rightarrow> bool) \<Rightarrow> (int \<Rightarrow> error + 'a) \<Rightarrow> int \<Rightarrow> nat
     \<Rightarrow> ((error + 'a) \<times> nat) option" where
  "retry_loop retries wait f count n =
     (let count1 = count + 1 in
      if (case retries of None \<Rightarrow> False | Some r \<Rightarrow> count1 > r)
      then Some (Inl (ZkRetryLimit (1 + the retries)), n)
      else if \<not> wait count1 then retry_loop retries wait f count1 (n + 1)
      else
        (case f count1 of
           Inr v \<Rightarrow> Some (Inr v, n + 1)
         | Inl e \<Rightarrow>
             if e = ZkNoConnection then retry_loop retries wait f count1 (n + 1)
             else Some (Inl e, n + 1)))"

definition retry ::
  "int option \<Rightarrow> (int \<Rightarrow> bool) \<Rightarrow> (int \<Rightarrow> error + 'a) \<Rightarrow> ((error + 'a) \<times> nat) option" where
  "retry retries wait f = retry_loop retries wait f (- 1) 0"

subsection \<open>The shared cache: class ZkSharedCache\<close>

text \<open>
  A Python dictionary as an association list with distinct keys, in insertion order
  (the order in which \<^verbatim>\<open>items()\<close> iterates): \<^verbatim>\<open>setdefault\<close> appends a new key
  and leaves a present one alone; \<^verbatim>\<open>del d[k]\<close> and \<^verbatim>\<open>d.pop(k, None)\<close> remove
  the key.
\<close>

definition dict_keys :: "('k \<times> 'v) list \<Rightarrow> 'k list" where
  "dict_keys d = map fst d"

definition setdefault :: "'k \<Rightarrow> 'v \<Rightarrow> ('k \<times> 'v) list \<Rightarrow> ('k \<times> 'v) list" where
  "setdefault k v d = (if k \<in> set (dict_keys d) then d else d @ [(k, v)])"

definition dict_remove :: "'k \<Rightarrow> ('k \<times> 'v) list \<Rightarrow> ('k \<times> 'v) list" where
  "dict_remove k d = filter (\<lambda>kv. fst kv \<noteq> k) d"

text \<open>
  The fields of a cache: its path, the dictionary \<^verbatim>\<open>_entries\<close> from entry name to
  the time it was first seen, the deque \<^verbatim>\<open>_incoming_entries\<close> (oldest first), and a
  ghost log of the batches passed to the handler. Time is any type \<open>'t\<close>; the client
  \<^verbatim>\<open>_zk\<close> is passed to each operation, which only reads it.
\<close>

record 't zk_shared_cache =
  path :: string
  entries :: "(string \<times> 't) list"
  incoming_entries :: "(string \<times> 't) list"
  handled :: "bytes list list"

text \<open>\<^verbatim>\<open>store\<close>, called when \<^verbatim>\<open>SCIONTime.get_time()\<close> is \<open>now\<close>.\<close>

definition store ::
  "zookeeper \<Rightarrow> kazoo \<Rightarrow> 't \<Rightarrow> string \<Rightarrow> bytes \<Rightarrow> 't zk_shared_cache
     \<Rightarrow> (error + unit) \<times> 't zk_shared_cache" where
  "store z k now name val c =
     (if \<not> is_connected z then (Inl ZkNoConnection, c)
      else
        (let full_path = os_path_join (path c) name;
             pushed = c\<lparr> incoming_entries := incoming_entries c @ [(name, now)] \<rparr> in
         case kz_set k full_path val of
           None \<Rightarrow> (Inr (), pushed)
         | Some e \<Rightarrow>
             if e = NoNodeError then
               (case kz_create k full_path val of
                  None \<Rightarrow> (Inr (), pushed)
                | Some e' \<Rightarrow>
                    if e' = NodeExistsError then (Inr (), c)
                    else (Inl (conn_error e'), c))
             else (Inl (conn_error e), c)))"

text \<open>\<^verbatim>\<open>_get\<close>, called when \<^verbatim>\<open>SCIONTime.get_time()\<close> is \<open>now\<close>.\<close>

definition get ::
  "kazoo \<Rightarrow> 't \<Rightarrow> string \<Rightarrow> 't zk_shared_cache \<Rightarrow> (error + bytes) \<times> 't zk_shared_cache" where
  "get k now name c =
     (case kz_get k (os_path_join (path c) name) of
        Inl e \<Rightarrow>
          if e = ConnectionLoss \<or> e = SessionExpiredError then (Inl ZkNoConnection, c)
          else if e = NoNodeError
          then (Inl ZkNoNodeError, c\<lparr> entries := dict_remove name (entries c) \<rparr>)
          else (Inl (Uncaught e), c)
      | Inr data \<Rightarrow> (Inr data, c\<lparr> entries := setdefault name now (entries c) \<rparr>))"

text \<open>\<^verbatim>\<open>_list_entries\<close>: the set of children, as a list without duplicates.\<close>

definition list_entries :: "kazoo \<Rightarrow> 't zk_shared_cache \<Rightarrow> error + string list" where
  "list_entries k c =
     (case kz_get_children k (path c) of
        Inr names \<Rightarrow> Inr (remdups names)
      | Inl e \<Rightarrow>
          if e = ConnectionLoss \<or> e = SessionExpiredError then Inl ZkNoConnection
          else if e = NoNodeError then Inr []
          else Inl (Uncaught e))"

text \<open>
  The loop of \<^verbatim>\<open>_handle_entries\<close> over the names still to fetch, with the payloads
  gathered so far; \<open>clock name\<close> is the time read while \<open>name\<close> is fetched.
  \<^verbatim>\<open>ZkNoConnection\<close> breaks out of the loop, \<^verbatim>\<open>ZkNoNodeError\<close> continues
  with the next name, any other exception propagates.
\<close>

fun handle_loop ::
  "kazoo \<Rightarrow> (string \<Rightarrow> 't) \<Rightarrow> string list \<Rightarrow> bytes list \<Rightarrow> 't zk_shared_cache
     \<Rightarrow> (error + bytes list) \<times> 't zk_shared_cache" where
  "handle_loop k clock [] data c = (Inr data, c)"
| "handle_loop k clock (name # rest) data c =
     (case get k (clock name) name c of
        (Inr d, c') \<Rightarrow> handle_loop k clock rest (data @ [d]) c'
      | (Inl e, c') \<Rightarrow>
          if e = ZkNoConnection then (Inr data, c')
          else if e = ZkNoNodeError then handle_loop k clock rest data c'
          else (Inl e, c'))"

text \<open>\<^verbatim>\<open>_handle_entries\<close>: the loop, then the handler on the batch, then its size.\<close>

definition handle_entries ::
  "kazoo \<Rightarrow> (string \<Rightarrow> 't) \<Rightarrow> string list \<Rightarrow> 't zk_shared_cache
     \<Rightarrow> (error + nat) \<times> 't zk_shared_cache" where
  "handle_entries k clock entry_names c =
     (case handle_loop k clock entry_names [] c of
        (Inl e, c') \<Rightarrow> (Inl e, c')
      | (Inr data, c') \<Rightarrow> (Inr (length data), c'\<lparr> handled := handled c' @ [data] \<rparr>))"

text \<open>
  The loop \<^verbatim>\<open>while self._incoming_entries\<close> of \<^verbatim>\<open>process\<close>: pop the oldest
  pair and \<^verbatim>\<open>setdefault\<close> it into the dictionary.
\<close>

fun drain_incoming :: "(string \<times> 't) list \<Rightarrow> (string \<times> 't) list \<Rightarrow> (string \<times> 't) list" where
  "drain_incoming [] es = es"
| "drain_incoming ((name, ts) # q) es = drain_incoming q (setdefault name ts es)"

text \<open>
  \<^verbatim>\<open>process\<close>. A Python set is a list without duplicates and a set difference a
  filter, so the names of \<open>current - previous\<close> are fetched in the order in which
  Kazoo listed the children; that order is arbitrary, like the iteration order of a set.
  \<^verbatim>\<open>del self._entries[entry]\<close> is applied to keys of the dictionary only (the
  names of \<open>previous\<close>), so it never raises \<^verbatim>\<open>KeyError\<close>.
\<close>

definition process ::
  "zookeeper \<Rightarrow> kazoo \<Rightarrow> (string \<Rightarrow> 't) \<Rightarrow> 't zk_shared_cache
     \<Rightarrow> (error + unit) \<times> 't zk_shared_cache" where
  "process z k clock c =
     (if \<not> is_connected z then (Inl ZkNoConnection, c)
      else
        (let c1 = c\<lparr> entries := drain_incoming (incoming_entries c) (entries c),
                     incoming_entries := [] \<rparr>;
             previous = remdups (dict_keys (entries c1)) in
         case list_entries k c1 of
           Inl e \<Rightarrow> (Inl e, c1)
         | Inr current \<Rightarrow>
             (let stale = filter (\<lambda>n. n \<notin> set current) previous;
                  c2 = c1\<lparr> entries := fold dict_remove stale (entries c1) \<rparr>;
                  fresh = filter (\<lambda>n. n \<notin> set previous) current in
              case handle_entries k clock fresh c2 of
                (Inl e, c3) \<Rightarrow> (Inl e, c3)
              | (Inr count, c3) \<Rightarrow> (Inr (), c3))))"

text \<open>
  The loop of \<^verbatim>\<open>expire\<close> over the items of the dictionary, with the paths that
  Kazoo has deleted so far in this sweep (the effect of the sweep on the store). The
  variable \<^verbatim>\<open>count\<close> of the source is only logged and is left out.
\<close>

fun expire_loop ::
  "kazoo \<Rightarrow> string \<Rightarrow> 't::{minus,ord} \<Rightarrow> 't \<Rightarrow> (string \<times> 't) list \<Rightarrow> string list
     \<Rightarrow> (error + unit) \<times> string list" where
  "expire_loop k p now ttl [] deleted = (Inr (), deleted)"
| "expire_loop k p now ttl ((entry, ts) # rest) deleted =
     (if now - ts > ttl then
        (let full_path = os_path_join p entry in
         case kz_delete k full_path of
           None \<Rightarrow> expire_loop k p now ttl rest (deleted @ [full_path])
         | Some e \<Rightarrow>
             if e = NoNodeError then (Inl ZkNoNodeError, deleted)
             else (Inl (conn_error e), deleted))
      else expire_loop k p now ttl rest deleted)"

text \<open>
  \<^verbatim>\<open>expire\<close>, called when \<^verbatim>\<open>SCIONTime.get_time()\<close> is \<open>now\<close>. It returns its
  outcome and the paths deleted from the store; the cache object is not written.
\<close>

definition expire ::
  "zookeeper \<Rightarrow> kazoo \<Rightarrow> 't::{minus,ord} \<Rightarrow> 't \<Rightarrow> 't zk_shared_cache
     \<Rightarrow> (error + unit) \<times> string list" where
  "expire z k now ttl c =
     (if \<not> is_connected z then (Inl ZkNoConnection, [])
      else expire_loop k (path c) now ttl (entries c) [])"

subsection \<open>The lock invariant and example inputs\<close>

text \<open>
  The invariant of the lock state: a lock counts as held only while the client is
  connected, the acquired bit is set and the epoch recorded at acquisition is the
  current connection epoch.
\<close>

definition lock_valid :: "zookeeper \<Rightarrow> bool" where
  "lock_valid s = (connected s \<and> lock s \<and> lock_epoch s = conn_epoch s)"

text \<open>
  A client that acquired the lock in epoch 1 and is connected again in epoch 3: a
  stale holder.
\<close>

definition stale_holder :: zookeeper where
  "stale_holder =
     (init ''1-11'' ''bs'' False False)
       \<lparr> connected := True, lock := True, conn_epoch := 3, lock_epoch := 1,
         zk_lock := Some \<lparr> is_acquired = True, release_calls = 0 \<rparr> \<rparr>"

text \<open>
  A store with a live session on which every call succeeds: no children, empty payloads.
\<close>

definition kazoo_ok :: kazoo where
  "kazoo_ok =
     \<lparr> kz_client_id = Some (1, []),
       kz_ensure_path = (\<lambda>p. None),
       kz_party_join = (\<lambda>p. None),
       kz_party_members = (\<lambda>p. Inr []),
       kz_set = (\<lambda>p v. None),
       kz_create = (\<lambda>p v. None),
       kz_get = (\<lambda>p. Inr []),
       kz_get_children = (\<lambda>p. Inr []),
       kz_delete = (\<lambda>p. None) \<rparr>"

text \<open>
  A client with one autojoining party and a pending \<open>CONNECTED\<close> notification,
  and a store on which joining a party fails with a lost connection.
\<close>

definition flapping_client :: zookeeper where
  "flapping_client =
     (init ''1-11'' ''bs'' True False)
       \<lparr> state_events := [CONNECTED],
         parties := [(''/1-11/bs/party'',
                      \<lparr> party_path = ''/1-11/bs/party'', party_autojoin = True \<rparr>)] \<rparr>"

definition kazoo_join_fails :: kazoo where
  "kazoo_join_fails = kazoo_ok \<lparr> kz_party_join := (\<lambda>p. Some ConnectionLoss) \<rparr>"

text \<open>
  An attempt of \<^verbatim>\<open>retry\<close> fails, and is retried, when the wait for a connection
  expires or \<^verbatim>\<open>f\<close> raises \<^verbatim>\<open>ZkNoConnection\<close>. An attempt is within the limit
  when \<^verbatim>\<open>_retries\<close> is \<^verbatim>\<open>None\<close> or at least the attempt's \<^verbatim>\<open>count\<close>.
\<close>

definition attempt_fails :: "(int \<Rightarrow> bool) \<Rightarrow> (int \<Rightarrow> error + 'a) \<Rightarrow> int \<Rightarrow> bool" where
  "attempt_fails wait f i = (\<not> wait i \<or> f i = Inl ZkNoConnection)"

definition within_limit :: "int option \<Rightarrow> int \<Rightarrow> bool" where
  "within_limit retries j = (case retries of None \<Rightarrow> True | Some r \<Rightarrow> j \<le> r)"

subsection \<open>The paths through store, and example caches\<close>

text \<open>
  The two outcomes of the store that make \<^verbatim>\<open>store\<close> record a timestamp (the set
  succeeds, or it fails with \<^verbatim>\<open>NoNodeError\<close> and the create succeeds), and the
  one on which a concurrent writer won the create.
\<close>

definition store_pushes :: "kazoo \<Rightarrow> string \<Rightarrow> bytes \<Rightarrow> bool" where
  "store_pushes k full_path val =
     (kz_set k full_path val = None
      \<or> (kz_set k full_path val = Some NoNodeError \<and> kz_create k full_path val = None))"

definition store_loses_race :: "kazoo \<Rightarrow> string \<Rightarrow> bytes \<Rightarrow> bool" where
  "store_loses_race k full_path val =
     (kz_set k full_path val = Some NoNodeError
      \<and> kz_create k full_path val = Some NodeExistsError)"

definition connected_client :: zookeeper where
  "connected_client = (init ''1-11'' ''bs'' False False) \<lparr> connected := True, conn_epoch := 1 \<rparr>"

definition empty_cache :: "int zk_shared_cache" where
  "empty_cache =
     \<lparr> path = ''/1-11/bs/pcbs'', entries = [], incoming_entries = [], handled = [] \<rparr>"

definition kazoo_create_race :: kazoo where
  "kazoo_create_race =
     kazoo_ok \<lparr> kz_set := (\<lambda>p v. Some NoNodeError),
                kz_create := (\<lambda>p v. Some NodeExistsError) \<rparr>"

definition tracked_cache :: "int zk_shared_cache" where
  "tracked_cache = empty_cache \<lparr> entries := [(''old'', 0), (''new'', 5)] \<rparr>"

definition kazoo_no_node :: kazoo where
  "kazoo_no_node = kazoo_ok \<lparr> kz_get := (\<lambda>p. Inl NoNodeError) \<rparr>"

text \<open>A store that lists the given children, and a cache with pending writer messages.\<close>

definition kazoo_lists :: "string list \<Rightarrow> kazoo" where
  "kazoo_lists names = kazoo_ok \<lparr> kz_get_children := (\<lambda>p. Inr names) \<rparr>"

definition busy_cache :: "int zk_shared_cache" where
  "busy_cache =
     empty_cache \<lparr> entries := [(''old'', 0), (''new'', 5)],
                   incoming_entries := [(''p01'', 6), (''new'', 7)] \<rparr>"

text \<open>
  An entry of the dictionary has expired at \<open>now\<close> when its age exceeds the
  time to live, the test \<^verbatim>\<open>now - ts > ttl\<close> of \<^verbatim>\<open>expire\<close>; its node in
  the store is at \<open>entry_path\<close>.
\<close>

definition expired :: "'t::{minus,ord} \<Rightarrow> 't \<Rightarrow> string \<times> 't \<Rightarrow> bool" where
  "expired now ttl kv = (now - snd kv > ttl)"

definition entry_path :: "string \<Rightarrow> string \<times> 't \<Rightarrow> string" where
  "entry_path p kv = os_path_join p (fst kv)"

text \<open>
  The invariant that links the state worker and the connected condition: the condition
  is set only while the worker's \<^verbatim>\<open>old_state\<close> is \<open>CONNECTED\<close>.
\<close>

definition worker_inv :: "worker_state \<times> zookeeper \<Rightarrow> bool" where
  "worker_inv ws = (connected (snd ws) \<longrightarrow> fst ws = Seen CONNECTED)"

section \<open>Properties\<close>

lemma release_lock_clears: "\<not> lock (snd (release_lock rel s))"
  by (simp add: release_lock_def Let_def split: option.splits)

lemma release_lock_returns:
  "release_expected rel \<Longrightarrow> fst (release_lock rel s) = Inr ()"
  by (auto simp: release_lock_def release_expected_def Let_def split: option.splits)

subsection \<open>The lock: have\_lock and release\_lock\<close>

lemma release_lock_result:
  "fst (release_lock rel s)
     = (case rel of
          None \<Rightarrow> Inr ()
        | Some e \<Rightarrow>
            if zk_lock s \<noteq> None \<and> connected s \<and> \<not> release_expected rel
            then Inl (Uncaught e) else Inr ())"
  by (auto simp: release_lock_def release_expected_def is_connected_def Let_def
           split: option.splits)

text \<open>
  Claim C1, as stated, fails: a connected stale holder does not get \<^verbatim>\<open>False\<close> from
  \<^verbatim>\<open>have_lock()\<close> when the store-side release raises an exception that
  \<^verbatim>\<open>release_lock\<close> does not catch; the exception propagates.
\<close>

theorem have_lock_raises_counterexample:
  "\<not> lock_valid stale_holder
   \<and> fst (have_lock (Some OtherKazooError) stale_holder) = Inl (Uncaught OtherKazooError)
   \<and> fst (have_lock (Some OtherKazooError) stale_holder) \<noteq> Inr False"
  by (simp add: lock_valid_def stale_holder_def init_def have_lock_def release_lock_def
        is_connected_def)

text \<open>
  Claim C1, amended. In every state of the client, \<^verbatim>\<open>have_lock()\<close> returns
  \<^verbatim>\<open>True\<close> if and only if the client is connected, the acquired bit is set and the
  epoch recorded at acquisition equals the current connection epoch; it then leaves the
  state as it is. Whenever that predicate is false, \<^verbatim>\<open>have_lock()\<close> runs
  \<^verbatim>\<open>release_lock\<close>, so the acquired bit is reset in every case; it returns
  \<^verbatim>\<open>False\<close> exactly when no lock object exists, or the client is disconnected, or
  the store-side release returns or fails with \<^verbatim>\<open>NoNodeError\<close>,
  \<^verbatim>\<open>ConnectionLoss\<close> or \<^verbatim>\<open>SessionExpiredError\<close>; any other exception of the
  store-side release propagates out of \<^verbatim>\<open>have_lock()\<close>.
\<close>

theorem have_lock_outcome:
  "(fst (have_lock rel s) = Inr True \<longleftrightarrow> lock_valid s)
   \<and> (lock_valid s \<longrightarrow> snd (have_lock rel s) = s)
   \<and> (\<not> lock_valid s \<longrightarrow>
        \<not> lock (snd (have_lock rel s))
        \<and> snd (have_lock rel s) = snd (release_lock rel s)
        \<and> (fst (have_lock rel s) = Inr False
             \<longleftrightarrow> zk_lock s = None \<or> \<not> connected s \<or> release_expected rel)
        \<and> (\<forall>e. zk_lock s \<noteq> None \<and> connected s \<and> rel = Some e \<and> \<not> release_expected rel
               \<longrightarrow> fst (have_lock rel s) = Inl (Uncaught e)))"
proof -
  obtain r s' where rl: "release_lock rel s = (r, s')"
    by (cases "release_lock rel s")
  have cleared: "\<not> lock s'"
    using release_lock_clears [of rel s] rl by simp
  have res: "r = (case rel of
          None \<Rightarrow> Inr ()
        | Some e \<Rightarrow>
            if zk_lock s \<noteq> None \<and> connected s \<and> \<not> release_expected rel
            then Inl (Uncaught e) else Inr ())"
    using release_lock_result [of rel s] rl by simp
  have none: "release_expected None"
    by (simp add: release_expected_def)
  show ?thesis
    using rl cleared res none
    by (auto simp: have_lock_def lock_valid_def is_connected_def
             split: sum.splits option.splits if_splits)
qed

theorem have_lock_outcome_witness:
  "\<not> lock_valid stale_holder
   \<and> release_expected (Some SessionExpiredError)
   \<and> fst (have_lock (Some SessionExpiredError) stale_holder) = Inr False
   \<and> \<not> lock (snd (have_lock (Some SessionExpiredError) stale_holder))
   \<and> \<not> release_expected (Some OtherKazooError)
   \<and> \<not> lock (snd (have_lock (Some OtherKazooError) stale_holder))"
  using have_lock_outcome [of "Some SessionExpiredError" stale_holder]
    have_lock_outcome [of "Some OtherKazooError" stale_holder]
  by (simp add: lock_valid_def stale_holder_def init_def release_expected_def
        have_lock_def release_lock_def is_connected_def)

text \<open>
  Claim C8, as stated, fails: \<^verbatim>\<open>release_lock()\<close> raises when the client is
  connected, a lock object exists and the store-side release raises an exception other
  than the three that the handler names.
\<close>

theorem release_lock_raises_counterexample:
  "connected stale_holder
   \<and> zk_lock stale_holder \<noteq> None
   \<and> fst (release_lock (Some LockTimeout) stale_holder) = Inl (Uncaught LockTimeout)"
  by (simp add: stale_holder_def init_def release_lock_def is_connected_def)

text \<open>
  Claim C8, amended. In every state of the client \<^verbatim>\<open>release_lock()\<close> clears the
  acquired bit first: it is clear afterwards even when the client is disconnected, when
  no lock object exists, and whatever the store-side release does. The store-side
  release is called exactly when a lock object exists and the client is connected.
  \<^verbatim>\<open>release_lock()\<close> returns normally exactly when no lock object exists, or the
  client is disconnected, or the store-side release returns or fails with
  \<^verbatim>\<open>NoNodeError\<close>, \<^verbatim>\<open>ConnectionLoss\<close> or \<^verbatim>\<open>SessionExpiredError\<close>
  (these are suppressed); any other exception of the store-side release propagates.
\<close>

theorem release_lock_outcome:
  "\<not> lock (snd (release_lock rel s))
   \<and> (fst (release_lock rel s) = Inr ()
        \<longleftrightarrow> zk_lock s = None \<or> \<not> connected s \<or> release_expected rel)
   \<and> (\<forall>e. zk_lock s \<noteq> None \<and> connected s \<and> rel = Some e \<and> \<not> release_expected rel
          \<longrightarrow> fst (release_lock rel s) = Inl (Uncaught e))
   \<and> map_option release_calls (zk_lock (snd (release_lock rel s)))
       = map_option (\<lambda>l. release_calls l + (if connected s then 1 else 0)) (zk_lock s)"
proof -
  have none: "release_expected None"
    by (simp add: release_expected_def)
  have calls: "map_option release_calls (zk_lock (snd (release_lock rel s)))
       = map_option (\<lambda>l. release_calls l + (if connected s then 1 else 0)) (zk_lock s)"
    by (auto simp: release_lock_def is_connected_def Let_def split: option.splits)
  show ?thesis
    using none calls
    by (auto simp: release_lock_clears release_lock_result split: option.splits if_splits)
qed

theorem release_lock_outcome_witness:
  "release_expected (Some NoNodeError)
   \<and> fst (release_lock (Some NoNodeError) stale_holder) = Inr ()
   \<and> \<not> lock (snd (release_lock (Some NoNodeError) stale_holder))
   \<and> map_option release_calls (zk_lock (snd (release_lock (Some NoNodeError) stale_holder)))
       = Some 1
   \<and> \<not> release_expected (Some LockTimeout)
   \<and> \<not> lock (snd (release_lock (Some LockTimeout) stale_holder))"
  using release_lock_outcome [of "Some NoNodeError" stale_holder]
    release_lock_outcome [of "Some LockTimeout" stale_holder]
  by (simp add: stale_holder_def init_def release_expected_def release_lock_def
        is_connected_def)

subsection \<open>The connection epoch\<close>

lemma release_lock_epoch: "conn_epoch (snd (release_lock rel s)) = conn_epoch s"
  by (simp add: release_lock_def Let_def split: option.splits)

lemma have_lock_epoch: "conn_epoch (snd (have_lock rel s)) = conn_epoch s"
  using release_lock_epoch [of rel s]
  by (auto simp: have_lock_def split: prod.splits sum.splits)

lemma state_connected_epoch: "conn_epoch (snd (state_connected k s)) = conn_epoch s"
  by (simp add: state_connected_def Let_def split: sum.splits option.splits)

lemma state_suspended_epoch: "conn_epoch (snd (state_suspended s)) = conn_epoch s"
  by (simp add: state_suspended_def Let_def)

lemma state_lost_epoch: "conn_epoch (snd (state_lost s)) = conn_epoch s"
  by (simp add: state_lost_def Let_def)

lemma state_handler_step_epoch:
  "conn_epoch (snd (state_handler_step k w s)) = conn_epoch s"
proof (cases "state_events s")
  case Nil
  then show ?thesis by (simp add: state_handler_step_def)
next
  case (Cons st rest)
  let ?s1 = "s\<lparr> state_events := rest \<rparr>"
  have "conn_epoch (snd (state_connected k ?s1)) = conn_epoch s"
    and "conn_epoch (snd (state_suspended ?s1)) = conn_epoch s"
    and "conn_epoch (snd (state_lost ?s1)) = conn_epoch s"
    by (simp_all add: state_connected_epoch state_suspended_epoch state_lost_epoch)
  with Cons show ?thesis
    by (auto simp: state_handler_step_def Let_def split: prod.splits sum.splits)
qed

text \<open>Only a notification changes the epoch, and it adds one.\<close>

lemma client_step_epoch:
  "conn_epoch (snd (client_step ws a))
     = conn_epoch (snd ws) + (if is_notify a then 1 else 0)"
proof (cases ws)
  case (Pair w s)
  show ?thesis
  proof (cases a)
    case (Notify st)
    with Pair show ?thesis by (simp add: state_listener_def)
  next
    case (Work k)
    with Pair state_handler_step_epoch [of k w s] show ?thesis
      by (auto split: prod.splits sum.splits)
  next
    case (ReleaseLock rel)
    with Pair show ?thesis by (simp add: release_lock_epoch)
  next
    case (HaveLock rel)
    with Pair show ?thesis by (simp add: have_lock_epoch)
  qed
qed

lemma client_run_epoch:
  "conn_epoch (snd (client_run ws acts))
     = conn_epoch (snd ws) + int (length (filter is_notify acts))"
  unfolding client_run_def
  by (induction acts arbitrary: ws) (simp_all add: client_step_epoch)

lemma client_run_append:
  "client_run ws (acts @ later) = client_run (client_run ws acts) later"
  by (simp add: client_run_def)

text \<open>
  Claim C2. The connection epoch is incremented exactly once per state-change
  notification. From a fresh client (epoch 0), after any interleaving of notifications
  with steps of the state worker and lock operations, the epoch equals the number of
  notifications delivered; in particular it is \<open>N\<close> after \<open>N\<close> notifications; and
  the epoch never decreases as a run goes on, from any state.
\<close>

theorem conn_epoch_counts_notifications:
  "conn_epoch (snd (client_run (Startup, init isd_as srv_type on_c on_d) acts))
     = int (length (filter is_notify acts))
   \<and> conn_epoch (snd (client_run (Startup, init isd_as srv_type on_c on_d) (map Notify sts)))
     = int (length sts)
   \<and> conn_epoch (snd (client_run ws acts)) \<le> conn_epoch (snd (client_run ws (acts @ later)))"
proof -
  have "filter is_notify (map Notify sts) = map Notify sts"
    by (induction sts) simp_all
  then show ?thesis
    by (simp add: client_run_epoch client_run_append init_def)
qed

theorem conn_epoch_counts_notifications_witness:
  "conn_epoch (snd (client_run (Startup, init ''1-11'' ''bs'' True False)
       [Notify CONNECTED, Work kazoo_ok, Notify SUSPENDED, HaveLock None,
        Notify CONNECTED])) = 3"
  using conn_epoch_counts_notifications
    [of "''1-11''" "''bs''" True False
        "[Notify CONNECTED, Work kazoo_ok, Notify SUSPENDED, HaveLock None,
          Notify CONNECTED]"]
  by simp

subsection \<open>The state worker and the connected condition\<close>

lemma release_lock_connected: "connected (snd (release_lock rel s)) = connected s"
  by (simp add: release_lock_def Let_def split: option.splits)

lemma have_lock_connected: "connected (snd (have_lock rel s)) = connected s"
  using release_lock_connected [of rel s]
  by (auto simp: have_lock_def split: prod.splits sum.splits)

lemma state_handler_step_inv:
  assumes "worker_inv (w, s)" and "state_handler_step k w s = (r, s')"
  shows "worker_inv (case r of Inl e \<Rightarrow> w | Inr w' \<Rightarrow> w', s')"
proof (cases "state_events s")
  case Nil
  with assms show ?thesis by (auto simp: state_handler_step_def)
next
  case (Cons st rest)
  show ?thesis
  proof (cases st)
    case CONNECTED
    with Cons assms show ?thesis
      by (auto simp: state_handler_step_def worker_inv_def Let_def state_connected_def
            split: if_splits sum.splits option.splits)
  next
    case SUSPENDED
    with Cons assms show ?thesis
      by (auto simp: state_handler_step_def worker_inv_def Let_def state_suspended_def
            split: if_splits)
  next
    case LOST
    with Cons assms show ?thesis
      by (auto simp: state_handler_step_def worker_inv_def Let_def state_lost_def
            split: if_splits)
  qed
qed

lemma client_step_inv: "worker_inv ws \<Longrightarrow> worker_inv (client_step ws a)"
proof (cases ws)
  case (Pair w s)
  assume inv: "worker_inv ws"
  show ?thesis
  proof (cases a)
    case (Notify st)
    with Pair inv show ?thesis by (simp add: worker_inv_def state_listener_def)
  next
    case (Work k)
    obtain r s' where st: "state_handler_step k w s = (r, s')"
      by (cases "state_handler_step k w s")
    from state_handler_step_inv [OF _ st] inv Pair
    have "worker_inv (case r of Inl e \<Rightarrow> w | Inr w' \<Rightarrow> w', s')" by simp
    with Pair Work st show ?thesis by (simp split: sum.splits)
  next
    case (ReleaseLock rel)
    with Pair inv show ?thesis by (simp add: worker_inv_def release_lock_connected)
  next
    case (HaveLock rel)
    with Pair inv show ?thesis by (simp add: worker_inv_def have_lock_connected)
  qed
qed

text \<open>
  In every state reached from a fresh client, the connected condition is set only while
  the worker's \<^verbatim>\<open>old_state\<close> is \<open>CONNECTED\<close>: when the worker dispatches a
  \<open>CONNECTED\<close> transition the condition is clear.
\<close>

lemma client_run_inv:
  "worker_inv ws \<Longrightarrow> worker_inv (client_run ws acts)"
  unfolding client_run_def
  by (induction acts arbitrary: ws) (simp_all add: client_step_inv)

lemma fresh_client_inv: "worker_inv (Startup, init isd_as srv_type on_c on_d)"
  by (simp add: worker_inv_def init_def)

subsection \<open>The state worker on a connection that drops again\<close>

lemma autojoin_all_append:
  "\<forall>q \<in> set before. autojoin k q = Inr () \<Longrightarrow>
     autojoin_all k (before @ rest) = autojoin_all k rest"
  by (induction before) simp_all

lemma connected_setup_events:
  "connected_setup k (s\<lparr> state_events := evs \<rparr>) = connected_setup k s"
  by (simp add: connected_setup_def ensure_path_def split: option.splits)

lemma state_connected_early_return:
  "kz_client_id k = Some client_id \<Longrightarrow> connected_setup k s = Inl ZkNoConnection \<Longrightarrow>
     state_connected k s = (Inr (), s)"
  by (simp add: state_connected_def)

text \<open>
  Without a session the handler fails at its log line, before the \<^verbatim>\<open>try\<close> block:
  neither \<^verbatim>\<open>ensure_path\<close> nor any \<^verbatim>\<open>autojoin\<close> is called.
\<close>

lemma state_connected_no_session:
  "kz_client_id k = None \<Longrightarrow> state_connected k s = (Inl TypeError, s)"
  by (simp add: state_connected_def)

text \<open>
  Claim C9. Let the handler \<^verbatim>\<open>_state_connected\<close> reach its \<^verbatim>\<open>try\<close> block,
  that is, let the session id be there for the log line before it (otherwise nothing is
  ensured or joined, and nothing of the claim's premise happens). If ensuring the
  service prefix path raises \<^verbatim>\<open>ZkNoConnection\<close>, or the path is ensured and the
  autojoin of some registered party raises it (the parties before it having joined),
  then \<^verbatim>\<open>_state_connected\<close> returns early and normally: the client's state is left as it was, so the connected condition is not set
  and the on-connect hook is not invoked. The state worker that dispatches a lone
  \<open>CONNECTED\<close> notification this way only consumes the notification; and since
  the condition is clear whenever the worker's \<^verbatim>\<open>old_state\<close> is not
  \<open>CONNECTED\<close>, it is still clear afterwards.
\<close>

theorem state_connected_no_connection:
  assumes "kz_client_id k = Some client_id"
    and "ensure_path k (prefix s) True s = Inl ZkNoConnection
           \<or> (ensure_path k (prefix s) True s = Inr ()
              \<and> (\<exists>before p after.
                    map snd (parties s) = before @ p # after
                    \<and> (\<forall>q \<in> set before. autojoin k q = Inr ())
                    \<and> autojoin k p = Inl ZkNoConnection))"
  shows "state_connected k s = (Inr (), s)
         \<and> connected (snd (state_connected k s)) = connected s
         \<and> on_connect_calls (snd (state_connected k s)) = on_connect_calls s
         \<and> (state_events s = [CONNECTED] \<and> w \<noteq> Seen CONNECTED \<longrightarrow>
              state_handler_step k w s = (Inr (Seen CONNECTED), s\<lparr> state_events := [] \<rparr>))
         \<and> (worker_inv (w, s) \<and> w \<noteq> Seen CONNECTED \<longrightarrow>
              \<not> connected (snd (state_connected k s)))"
proof -
  have cs: "connected_setup k s = Inl ZkNoConnection"
    using assms(2)
  proof
    assume "ensure_path k (prefix s) True s = Inl ZkNoConnection"
    then show ?thesis by (simp add: connected_setup_def)
  next
    assume "ensure_path k (prefix s) True s = Inr ()
              \<and> (\<exists>before p after.
                    map snd (parties s) = before @ p # after
                    \<and> (\<forall>q \<in> set before. autojoin k q = Inr ())
                    \<and> autojoin k p = Inl ZkNoConnection)"
    then obtain before p after where
      ep: "ensure_path k (prefix s) True s = Inr ()" and
      ps: "map snd (parties s) = before @ p # after" and
      ok: "\<forall>q \<in> set before. autojoin k q = Inr ()" and
      bad: "autojoin k p = Inl ZkNoConnection"
      by blast
    from ok have "autojoin_all k (before @ p # after) = autojoin_all k (p # after)"
      by (rule autojoin_all_append)
    with bad have "autojoin_all k (before @ p # after) = Inl ZkNoConnection"
      by simp
    with ep ps show ?thesis by (simp add: connected_setup_def)
  qed
  with assms(1) have ret: "state_connected k s = (Inr (), s)"
    by (rule state_connected_early_return)
  have "connected_setup k (s\<lparr> state_events := [] \<rparr>) = Inl ZkNoConnection"
    using cs by (simp add: connected_setup_events)
  with assms(1)
  have "state_connected k (s\<lparr> state_events := [] \<rparr>) = (Inr (), s\<lparr> state_events := [] \<rparr>)"
    by (rule state_connected_early_return)
  then have "state_events s = [CONNECTED] \<and> w \<noteq> Seen CONNECTED \<longrightarrow>
     state_handler_step k w s = (Inr (Seen CONNECTED), s\<lparr> state_events := [] \<rparr>)"
    by (auto simp: state_handler_step_def Let_def)
  with ret show ?thesis by (auto simp: worker_inv_def)
qed

theorem state_connected_no_connection_witness:
  "kz_client_id kazoo_join_fails = Some (1, [])
   \<and> ensure_path kazoo_join_fails (prefix flapping_client) True flapping_client = Inr ()
   \<and> autojoin kazoo_join_fails
        \<lparr> party_path = ''/1-11/bs/party'', party_autojoin = True \<rparr> = Inl ZkNoConnection
   \<and> state_handler_step kazoo_join_fails Startup flapping_client
       = (Inr (Seen CONNECTED), flapping_client\<lparr> state_events := [] \<rparr>)
   \<and> \<not> connected (snd (state_handler_step kazoo_join_fails Startup flapping_client))
   \<and> on_connect flapping_client
   \<and> on_connect_calls (snd (state_handler_step kazoo_join_fails Startup flapping_client)) = 0
   \<and> worker_inv (Startup, flapping_client)
   \<and> \<not> connected (snd (state_connected kazoo_join_fails flapping_client))"
  using state_connected_no_connection
    [of kazoo_join_fails "(1, [])" flapping_client Startup]
  by (simp add: flapping_client_def kazoo_join_fails_def kazoo_ok_def init_def
        ensure_path_def autojoin_def party_join_def party_list_def conn_error_def
        state_handler_step_def state_connected_def connected_setup_def worker_inv_def)


subsection \<open>The retry wrapper\<close>

lemma retry_loop_skip:
  assumes "attempt_fails wait f (c + 1)" and "within_limit retries (c + 1)"
  shows "retry_loop retries wait f c n = retry_loop retries wait f (c + 1) (n + 1)"
  using assms
  by (subst retry_loop.simps)
     (auto simp: attempt_fails_def within_limit_def Let_def split: option.splits)

lemma retry_loop_returns:
  assumes "wait (c + 1)" and "f (c + 1) = Inr v" and "within_limit retries (c + 1)"
  shows "retry_loop retries wait f c n = Some (Inr v, n + 1)"
  using assms
  by (subst retry_loop.simps) (auto simp: within_limit_def Let_def split: option.splits)

lemma retry_loop_succeeds:
  assumes "c < j" and "within_limit retries j"
    and "\<forall>i. c < i \<and> i < j \<longrightarrow> attempt_fails wait f i"
    and "wait j" and "f j = Inr v"
  shows "retry_loop retries wait f c n = Some (Inr v, n + nat (j - c))"
  using assms
proof (induction "nat (j - c - 1)" arbitrary: c n)
  case 0
  then have "j = c + 1" by simp
  with "0.prems" show ?case
    by (simp add: retry_loop_returns)
next
  case (Suc m)
  then have lt: "c + 1 < j" and m: "m = nat (j - (c + 1) - 1)" by linarith+
  have lim: "within_limit retries (c + 1)"
    using Suc.prems(2) lt by (auto simp: within_limit_def split: option.splits)
  from Suc.prems lt have "attempt_fails wait f (c + 1)" by simp
  then have "retry_loop retries wait f c n = retry_loop retries wait f (c + 1) (n + 1)"
    using lim by (rule retry_loop_skip)
  also have "\<dots> = Some (Inr v, (n + 1) + nat (j - (c + 1)))"
    using Suc.hyps(1) [OF m lt Suc.prems(2) _ Suc.prems(4) Suc.prems(5)] Suc.prems(3)
    by simp
  finally show ?case using lt by (simp add: nat_diff_distrib)
qed

lemma retry_loop_exhausts:
  assumes "c \<le> r" and "\<forall>i. c < i \<and> i \<le> r \<longrightarrow> attempt_fails wait f i"
  shows "retry_loop (Some r) wait f c n = Some (Inl (ZkRetryLimit (1 + r)), n + nat (r - c))"
  using assms
proof (induction "nat (r - c)" arbitrary: c n)
  case 0
  then have "c = r" by simp
  then show ?case
    by (subst retry_loop.simps) (simp add: Let_def)
next
  case (Suc m)
  then have lt: "c + 1 \<le> r" and m: "m = nat (r - (c + 1))" by linarith+
  from Suc.prems lt have "attempt_fails wait f (c + 1)" by simp
  moreover from lt have "within_limit (Some r) (c + 1)"
    by (simp add: within_limit_def)
  ultimately have
    "retry_loop (Some r) wait f c n = retry_loop (Some r) wait f (c + 1) (n + 1)"
    by (rule retry_loop_skip)
  also have "\<dots> = Some (Inl (ZkRetryLimit (1 + r)), (n + 1) + nat (r - (c + 1)))"
    using Suc.hyps(1) [OF m lt] Suc.prems(2) by simp
  finally show ?case using lt by (simp add: nat_diff_distrib)
qed

text \<open>
  Claim C6. For a call of \<^verbatim>\<open>retry\<close> with a finite number \<open>r\<close> of retries:
  if every attempt fails (the wait for a connection expires or \<^verbatim>\<open>f\<close> raises
  \<^verbatim>\<open>ZkNoConnection\<close>), the wrapper makes exactly \<open>r + 1\<close> attempts and then
  raises \<^verbatim>\<open>ZkRetryLimit\<close>; if an attempt succeeds after failed ones, the wrapper
  returns the result of \<^verbatim>\<open>f\<close> at once, without further attempts. With
  \<open>r = 2\<close> and an \<^verbatim>\<open>f\<close> that always raises \<^verbatim>\<open>ZkNoConnection\<close>,
  \<^verbatim>\<open>ZkRetryLimit\<close> is raised after three attempts. In each case the loop ends.
\<close>

theorem retry_attempts:
  fixes f :: "int \<Rightarrow> error + 'a"
  assumes "0 \<le> r"
  shows "((\<forall>i. 0 \<le> i \<and> i \<le> r \<longrightarrow> attempt_fails wait f i) \<longrightarrow>
            retry (Some r) wait f = Some (Inl (ZkRetryLimit (1 + r)), nat (r + 1)))
       \<and> (\<forall>j v. 0 \<le> j \<and> j \<le> r \<and> (\<forall>i. 0 \<le> i \<and> i < j \<longrightarrow> attempt_fails wait f i)
                  \<and> wait j \<and> f j = Inr v \<longrightarrow>
            retry (Some r) wait f = Some (Inr v, nat (j + 1)))
       \<and> retry (Some 2) (\<lambda>i. True) (\<lambda>i. Inl ZkNoConnection :: error + 'a)
            = Some (Inl (ZkRetryLimit 3), 3)"
proof (intro conjI impI allI)
  assume "\<forall>i. 0 \<le> i \<and> i \<le> r \<longrightarrow> attempt_fails wait f i"
  then have "\<forall>i. - 1 < i \<and> i \<le> r \<longrightarrow> attempt_fails wait f i" by simp
  with assms show "retry (Some r) wait f = Some (Inl (ZkRetryLimit (1 + r)), nat (r + 1))"
    unfolding retry_def
    using retry_loop_exhausts [of "- 1" r wait f 0] by simp
next
  fix j v
  assume a: "0 \<le> j \<and> j \<le> r \<and> (\<forall>i. 0 \<le> i \<and> i < j \<longrightarrow> attempt_fails wait f i)
               \<and> wait j \<and> f j = Inr v"
  then have "within_limit (Some r) j" by (simp add: within_limit_def)
  moreover from a have "\<forall>i. - 1 < i \<and> i < j \<longrightarrow> attempt_fails wait f i" by simp
  ultimately show "retry (Some r) wait f = Some (Inr v, nat (j + 1))"
    unfolding retry_def
    using a retry_loop_succeeds [of "- 1" j "Some r" wait f v 0] by simp
next
  have "\<forall>i. - 1 < i \<and> i \<le> 2 \<longrightarrow>
          attempt_fails (\<lambda>i. True) (\<lambda>i. Inl ZkNoConnection :: error + 'a) i"
    by (simp add: attempt_fails_def)
  then show "retry (Some 2) (\<lambda>i. True) (\<lambda>i. Inl ZkNoConnection :: error + 'a)
            = Some (Inl (ZkRetryLimit 3), 3)"
    unfolding retry_def
    using retry_loop_exhausts
      [of "- 1" 2 "\<lambda>i. True" "\<lambda>i. Inl ZkNoConnection :: error + 'a" 0]
    by simp
qed

theorem retry_attempts_witness:
  "(0::int) \<le> 2
   \<and> attempt_fails (\<lambda>i. i \<noteq> 1) (\<lambda>i. if i = 2 then Inr ''ok'' else Inl ZkNoConnection) 0
   \<and> attempt_fails (\<lambda>i. i \<noteq> 1) (\<lambda>i. if i = 2 then Inr ''ok'' else Inl ZkNoConnection) 1
   \<and> retry (Some 2) (\<lambda>i. i \<noteq> 1) (\<lambda>i. if i = 2 then Inr ''ok'' else Inl ZkNoConnection)
       = Some (Inr ''ok'', 3)
   \<and> retry (Some 2) (\<lambda>i. True) (\<lambda>i. Inl ZkNoConnection :: error + string)
       = Some (Inl (ZkRetryLimit 3), 3)"
proof -
  let ?w = "\<lambda>i::int. i \<noteq> 1"
  let ?f = "\<lambda>i::int. if i = 2 then Inr ''ok'' else (Inl ZkNoConnection :: error + string)"
  have le: "(0::int) \<le> 2" by simp
  have fails: "\<forall>i. 0 \<le> i \<and> i < 2 \<longrightarrow> attempt_fails ?w ?f i"
    by (auto simp: attempt_fails_def)
  note ok = retry_attempts [OF le, of ?w ?f, THEN conjunct2, THEN conjunct1,
      rule_format, of 2 "''ok''"]
  have "retry (Some 2) ?w ?f = Some (Inr ''ok'', nat (2 + 1))"
    by (rule ok) (simp add: attempt_fails_def)
  then have "retry (Some 2) ?w ?f = Some (Inr ''ok'', 3)"
    by simp
  moreover have "retry (Some 2) (\<lambda>i. True) (\<lambda>i. Inl ZkNoConnection :: error + string)
       = Some (Inl (ZkRetryLimit 3), 3)"
    using retry_attempts [OF le, of "\<lambda>i. True" "\<lambda>i. Inl ZkNoConnection :: error + string"]
    by simp
  ultimately show ?thesis by (simp add: attempt_fails_def)
qed

subsection \<open>The shared cache: dictionaries\<close>

lemma map_of_dict_remove:
  "map_of (dict_remove k d) n = (if n = k then None else map_of d n)"
  by (induction d) (auto simp: dict_remove_def)

lemma dict_keys_dict_remove:
  "set (dict_keys (dict_remove k d)) = set (dict_keys d) - {k}"
  by (auto simp: dict_remove_def dict_keys_def)

lemma dict_keys_map_of: "k \<in> set (dict_keys d) \<longleftrightarrow> map_of d k \<noteq> None"
  by (simp add: dict_keys_def map_of_eq_None_iff)

lemma map_of_setdefault:
  "map_of (setdefault k v d) n = (if n = k \<and> map_of d k = None then Some v else map_of d n)"
  by (auto simp: setdefault_def dict_keys_map_of map_add_def split: option.splits)

lemma dict_keys_setdefault:
  "set (dict_keys (setdefault k v d)) = insert k (set (dict_keys d))"
  by (auto simp: setdefault_def dict_keys_def)

subsection \<open>The shared cache: store and the internal read\<close>

text \<open>
  Claim C5. For a call of \<^verbatim>\<open>store(name, value)\<close> on a connected cache: if the set
  fails with \<^verbatim>\<open>NoNodeError\<close> and the create that follows fails with
  \<^verbatim>\<open>NodeExistsError\<close>, the call returns normally and pushes nothing onto the
  writer FIFO; if the set succeeds, or the create succeeds after a
  \<^verbatim>\<open>NoNodeError\<close> from the set, the call returns normally and pushes
  \<open>(name, now)\<close>; and among the calls that return normally, only the one that lost
  the race on the create leaves the FIFO as it was.
\<close>

theorem store_push_paths:
  assumes "connected z"
  shows "(store_loses_race k (os_path_join (path c) name) val \<longrightarrow>
            store z k now name val c = (Inr (), c))
       \<and> (store_pushes k (os_path_join (path c) name) val \<longrightarrow>
            store z k now name val c
              = (Inr (), c\<lparr> incoming_entries := incoming_entries c @ [(name, now)] \<rparr>))
       \<and> (fst (store z k now name val c) = Inr ()
            \<and> incoming_entries (snd (store z k now name val c)) = incoming_entries c
              \<longrightarrow> store_loses_race k (os_path_join (path c) name) val)
       \<and> (fst (store z k now name val c) = Inr () \<longrightarrow>
            store_loses_race k (os_path_join (path c) name) val
            \<or> store_pushes k (os_path_join (path c) name) val)"
  using assms
  by (auto simp: store_def store_pushes_def store_loses_race_def is_connected_def Let_def
        conn_error_def split: option.splits if_splits)

theorem store_push_paths_witness:
  "connected connected_client
   \<and> store_loses_race kazoo_create_race (os_path_join (path empty_cache) ''dup'') ''x''
   \<and> store connected_client kazoo_create_race 7 ''dup'' ''x'' empty_cache
       = (Inr (), empty_cache)
   \<and> store_pushes kazoo_ok (os_path_join (path empty_cache) ''dup'') ''x''
   \<and> incoming_entries (snd (store connected_client kazoo_ok 7 ''dup'' ''x'' empty_cache))
       = [(''dup'', 7)]"
  using store_push_paths [of connected_client kazoo_create_race empty_cache "''dup''" "''x''" 7]
    store_push_paths [of connected_client kazoo_ok empty_cache "''dup''" "''x''" 7]
  by (simp add: connected_client_def init_def store_loses_race_def store_pushes_def
        kazoo_create_race_def kazoo_ok_def empty_cache_def)

text \<open>
  Claim C10. If the payload of an entry cannot be fetched because its node is absent,
  \<^verbatim>\<open>_get\<close> removes the name from the timestamp dictionary and raises
  \<^verbatim>\<open>ZkNoNodeError\<close>: in the state it leaves behind the name has no timestamp.
  On a successful read the payload is returned and the name is inserted with the current
  time only if it is not present yet; a present name keeps its timestamp.
\<close>

theorem get_vanished_entry:
  "(kz_get k (os_path_join (path c) name) = Inl NoNodeError \<longrightarrow>
      fst (get k now name c) = Inl ZkNoNodeError
      \<and> name \<notin> set (dict_keys (entries (snd (get k now name c))))
      \<and> map_of (entries (snd (get k now name c))) name = None
      \<and> entries (snd (get k now name c)) = dict_remove name (entries c))
   \<and> (\<forall>data. kz_get k (os_path_join (path c) name) = Inr data \<longrightarrow>
        fst (get k now name c) = Inr data
        \<and> entries (snd (get k now name c))
            = (if name \<in> set (dict_keys (entries c)) then entries c
               else entries c @ [(name, now)])
        \<and> map_of (entries (snd (get k now name c))) name
            = (case map_of (entries c) name of None \<Rightarrow> Some now | Some ts \<Rightarrow> Some ts))"
proof -
  have gone: "kz_get k (os_path_join (path c) name) = Inl NoNodeError \<Longrightarrow>
      get k now name c = (Inl ZkNoNodeError, c\<lparr> entries := dict_remove name (entries c) \<rparr>)"
    by (simp add: get_def)
  have found: "\<And>data. kz_get k (os_path_join (path c) name) = Inr data \<Longrightarrow>
      get k now name c = (Inr data, c\<lparr> entries := setdefault name now (entries c) \<rparr>)"
    by (simp add: get_def)
  have sd: "setdefault name now (entries c)
      = (if name \<in> set (dict_keys (entries c)) then entries c
         else entries c @ [(name, now)])"
    by (simp add: setdefault_def)
  have look: "map_of (setdefault name now (entries c)) name
      = (case map_of (entries c) name of None \<Rightarrow> Some now | Some ts \<Rightarrow> Some ts)"
    by (simp add: map_of_setdefault split: option.splits)
  show ?thesis
    using sd look
    by (simp add: gone found map_of_dict_remove dict_keys_dict_remove)
qed

theorem get_vanished_entry_witness:
  "kz_get kazoo_no_node (os_path_join (path tracked_cache) ''old'') = Inl NoNodeError
   \<and> get kazoo_no_node 9 ''old'' tracked_cache
       = (Inl ZkNoNodeError, tracked_cache \<lparr> entries := [(''new'', 5)] \<rparr>)
   \<and> kz_get kazoo_ok (os_path_join (path tracked_cache) ''old'') = Inr []
   \<and> entries (snd (get kazoo_ok 9 ''old'' tracked_cache)) = [(''old'', 0), (''new'', 5)]
   \<and> entries (snd (get kazoo_ok 9 ''p01'' tracked_cache))
       = [(''old'', 0), (''new'', 5), (''p01'', 9)]"
  using get_vanished_entry [of kazoo_no_node tracked_cache "''old''" 9]
    get_vanished_entry [of kazoo_ok tracked_cache "''old''" 9]
  by (simp add: kazoo_no_node_def kazoo_ok_def tracked_cache_def empty_cache_def get_def
        dict_remove_def setdefault_def dict_keys_def)

subsection \<open>The shared cache: the maintenance pass\<close>

lemma map_of_fold_dict_remove:
  "map_of (fold dict_remove ks d) n = (if n \<in> set ks then None else map_of d n)"
  by (induction ks arbitrary: d) (auto simp: map_of_dict_remove)

lemma dict_keys_fold_dict_remove:
  "set (dict_keys (fold dict_remove ks d)) = set (dict_keys d) - set ks"
  by (induction ks arbitrary: d) (auto simp: dict_keys_dict_remove)

lemma map_of_drain_incoming:
  "map_of (drain_incoming q es) n
     = (case map_of es n of Some t \<Rightarrow> Some t | None \<Rightarrow> map_of q n)"
  by (induction q es rule: drain_incoming.induct)
     (auto simp: map_of_setdefault split: option.splits)

lemma get_path: "path (snd (get k now name c)) = path c"
  by (simp add: get_def split: sum.splits)

lemma get_other:
  "n \<noteq> name \<Longrightarrow> map_of (entries (snd (get k now name c))) n = map_of (entries c) n"
  by (simp add: get_def map_of_dict_remove map_of_setdefault split: sum.splits)

lemma get_keys_found:
  "kz_get k (os_path_join (path c) name) = Inr d \<Longrightarrow>
     fst (get k now name c) = Inr d
     \<and> set (dict_keys (entries (snd (get k now name c)))) = insert name (set (dict_keys (entries c)))"
  by (simp add: get_def dict_keys_setdefault)

lemma handle_loop_other:
  "n \<notin> set names \<Longrightarrow>
     map_of (entries (snd (handle_loop k clock names data c))) n = map_of (entries c) n"
proof (induction names arbitrary: data c)
  case Nil
  then show ?case by simp
next
  case (Cons name rest)
  obtain r c' where g: "get k (clock name) name c = (r, c')"
    by (cases "get k (clock name) name c")
  from Cons.prems have "n \<noteq> name" and rest: "n \<notin> set rest" by simp_all
  then have same: "map_of (entries c') n = map_of (entries c) n"
    using get_other [of n name k "clock name" c] g by simp
  have ih: "\<And>data. map_of (entries (snd (handle_loop k clock rest data c'))) n
      = map_of (entries c) n"
    using Cons.IH [OF rest] same by simp
  show ?case
    using g same ih by (simp split: sum.splits)
qed

lemma handle_loop_all_found:
  "\<forall>n \<in> set names. \<exists>d. kz_get k (os_path_join (path c) n) = Inr d \<Longrightarrow>
     (\<exists>ds. fst (handle_loop k clock names data c) = Inr ds)
     \<and> set (dict_keys (entries (snd (handle_loop k clock names data c))))
         = set (dict_keys (entries c)) \<union> set names"
proof (induction names arbitrary: data c)
  case Nil
  then show ?case by simp
next
  case (Cons name rest)
  from Cons.prems obtain d where d: "kz_get k (os_path_join (path c) name) = Inr d"
    by auto
  obtain c' where g: "get k (clock name) name c = (Inr d, c')"
    using get_keys_found [OF d, of "clock name"]
    by (cases "get k (clock name) name c") simp
  have keys: "set (dict_keys (entries c')) = insert name (set (dict_keys (entries c)))"
    using get_keys_found [OF d, of "clock name"] g by simp
  have "path c' = path c"
    using get_path [of k "clock name" name c] g by simp
  with Cons.prems have "\<forall>n \<in> set rest. \<exists>d. kz_get k (os_path_join (path c') n) = Inr d"
    by simp
  from Cons.IH [OF this, of "data @ [d]"] g keys show ?case
    by auto
qed

lemma handle_entries_entries:
  "entries (snd (handle_entries k clock names c))
     = entries (snd (handle_loop k clock names [] c))"
  by (simp add: handle_entries_def split: prod.splits sum.splits)

lemma handle_entries_returns:
  "fst (handle_loop k clock names [] c) = Inr ds \<Longrightarrow>
     fst (handle_entries k clock names c) = Inr (length ds)"
  by (cases "handle_loop k clock names [] c") (auto simp: handle_entries_def)

lemma list_entries_path: "path c' = path c \<Longrightarrow> list_entries k c' = list_entries k c"
  by (simp add: list_entries_def)

text \<open>The three ways \<^verbatim>\<open>process\<close> can go, by the connection and the listing.\<close>

lemma process_disconnected: "\<not> connected z \<Longrightarrow> process z k clock c = (Inl ZkNoConnection, c)"
  by (simp add: process_def is_connected_def)

lemma process_list_fails:
  assumes "connected z" and "list_entries k c = Inl e"
  shows "process z k clock c
     = (Inl e, c\<lparr> entries := drain_incoming (incoming_entries c) (entries c),
                  incoming_entries := [] \<rparr>)"
proof -
  have "list_entries k (c\<lparr> entries := drain_incoming (incoming_entries c) (entries c),
                  incoming_entries := [] \<rparr>) = Inl e"
    using assms(2) by (simp add: list_entries_def)
  with assms(1) show ?thesis
    by (simp add: process_def is_connected_def Let_def)
qed

lemma process_listed:
  assumes "connected z" and "list_entries k c = Inr current"
  shows "process z k clock c
     = (let drained = drain_incoming (incoming_entries c) (entries c);
            previous = remdups (dict_keys drained);
            c2 = c\<lparr> incoming_entries := [],
                     entries := fold dict_remove (filter (\<lambda>n. n \<notin> set current) previous) drained \<rparr>;
            r = handle_entries k clock (filter (\<lambda>n. n \<notin> set previous) current) c2
        in (case fst r of Inl e \<Rightarrow> Inl e | Inr count \<Rightarrow> Inr (), snd r))"
proof -
  have "list_entries k (c\<lparr> entries := drain_incoming (incoming_entries c) (entries c),
                  incoming_entries := [] \<rparr>) = Inr current"
    using assms(2) by (simp add: list_entries_def)
  with assms(1) show ?thesis
    by (auto simp: process_def is_connected_def Let_def split: prod.splits sum.splits)
qed

lemma process_tracked_listed:
  assumes "connected z" and "list_entries k c = Inr current"
    and "map_of (drain_incoming (incoming_entries c) (entries c)) n = Some ts"
  shows "map_of (entries (snd (process z k clock c))) n
     = (if n \<in> set current then Some ts else None)"
proof -
  let ?drained = "drain_incoming (incoming_entries c) (entries c)"
  let ?previous = "remdups (dict_keys ?drained)"
  let ?c2 = "c\<lparr> incoming_entries := [],
                 entries := fold dict_remove (filter (\<lambda>n. n \<notin> set current) ?previous) ?drained \<rparr>"
  let ?fresh = "filter (\<lambda>n. n \<notin> set ?previous) current"
  have tracked: "n \<in> set ?previous"
    using assms(3) by (simp add: dict_keys_map_of)
  then have "n \<notin> set ?fresh" by simp
  then have "map_of (entries (snd (handle_loop k clock ?fresh [] ?c2))) n
      = map_of (entries ?c2) n"
    by (rule handle_loop_other)
  also have "\<dots> = (if n \<in> set current then Some ts else None)"
    using assms(3) tracked by (simp add: map_of_fold_dict_remove)
  finally show ?thesis
    by (simp add: process_listed [OF assms(1,2)] Let_def handle_entries_entries)
qed

lemma process_keeps_or_drops:
  assumes "map_of (entries c) n = Some ts"
  shows "map_of (entries (snd (process z k clock c))) n = Some ts
         \<or> map_of (entries (snd (process z k clock c))) n = None"
proof (cases "connected z")
  case False
  with assms show ?thesis by (simp add: process_disconnected)
next
  case True
  have drained: "map_of (drain_incoming (incoming_entries c) (entries c)) n = Some ts"
    using assms by (simp add: map_of_drain_incoming)
  show ?thesis
  proof (cases "list_entries k c")
    case (Inl e)
    with True drained show ?thesis by (simp add: process_list_fails)
  next
    case (Inr current)
    with True drained show ?thesis by (simp add: process_tracked_listed)
  qed
qed


lemma list_entries_children:
  "kz_get_children k (path c) = Inr names \<Longrightarrow> list_entries k c = Inr (remdups names)"
  by (simp add: list_entries_def)

lemma list_entries_absent:
  "kz_get_children k (path c) = Inl NoNodeError \<Longrightarrow> list_entries k c = Inr []"
  by (simp add: list_entries_def)

lemma store_pushed:
  "connected z \<Longrightarrow> store_pushes k (os_path_join (path c) name) val \<Longrightarrow>
     store z k now name val c
       = (Inr (), c\<lparr> incoming_entries := incoming_entries c @ [(name, now)] \<rparr>)"
  by (auto simp: store_def store_pushes_def is_connected_def Let_def)

lemma store_keeps_tracking:
  "path (snd (store z k now name val c)) = path c
   \<and> entries (snd (store z k now name val c)) = entries c
   \<and> (incoming_entries (snd (store z k now name val c)) = incoming_entries c
      \<or> incoming_entries (snd (store z k now name val c)) = incoming_entries c @ [(name, now)])"
  by (simp add: store_def Let_def split: option.splits)

text \<open>
  Claim C7. Recorded first-seen timestamps are never overwritten. Draining a pair
  \<open>(name, ts)\<close> from the writer FIFO leaves the timestamp of a name already in the
  dictionary unchanged; a whole run of \<^verbatim>\<open>process\<close> leaves it unchanged or removes
  the name, and leaves it unchanged whenever the store still lists the name. So after
  \<^verbatim>\<open>store(n, v1)\<close> at time \<open>t1\<close>, a second \<^verbatim>\<open>store(n, v2)\<close> at time
  \<open>t2\<close> and a \<^verbatim>\<open>process()\<close> that lists \<open>n\<close>, the timestamp recorded for
  a freshly named \<open>n\<close> is \<open>t1\<close>, whatever the second call to \<^verbatim>\<open>store\<close> did.
\<close>

theorem first_seen_never_overwritten:
  "(map_of es n = Some ts \<longrightarrow> map_of (drain_incoming q es) n = Some ts)
   \<and> (map_of (entries c) n = Some ts \<longrightarrow>
        map_of (entries (snd (process z k clock c))) n = Some ts
        \<or> map_of (entries (snd (process z k clock c))) n = None)
   \<and> (map_of (entries c) n = Some ts \<and> connected z
        \<and> kz_get_children k (path c) = Inr names \<and> n \<in> set names \<longrightarrow>
        map_of (entries (snd (process z k clock c))) n = Some ts)
   \<and> (connected z \<and> store_pushes k1 (os_path_join (path c) n) v1
        \<and> map_of (entries c) n = None \<and> map_of (incoming_entries c) n = None
        \<and> kz_get_children k (path c) = Inr names \<and> n \<in> set names \<longrightarrow>
        map_of (entries (snd (process z k clock
            (snd (store z k2 t2 n v2 (snd (store z k1 t1 n v1 c))))))) n = Some t1)"
proof (intro conjI impI)
  assume "map_of es n = Some ts"
  then show "map_of (drain_incoming q es) n = Some ts"
    by (simp add: map_of_drain_incoming)
next
  assume "map_of (entries c) n = Some ts"
  then show "map_of (entries (snd (process z k clock c))) n = Some ts
        \<or> map_of (entries (snd (process z k clock c))) n = None"
    by (rule process_keeps_or_drops)
next
  assume a: "map_of (entries c) n = Some ts \<and> connected z
        \<and> kz_get_children k (path c) = Inr names \<and> n \<in> set names"
  then have "list_entries k c = Inr (remdups names)"
    by (simp add: list_entries_children)
  moreover from a have "map_of (drain_incoming (incoming_entries c) (entries c)) n = Some ts"
    by (simp add: map_of_drain_incoming)
  ultimately show "map_of (entries (snd (process z k clock c))) n = Some ts"
    using a by (simp add: process_tracked_listed)
next
  assume a: "connected z \<and> store_pushes k1 (os_path_join (path c) n) v1
        \<and> map_of (entries c) n = None \<and> map_of (incoming_entries c) n = None
        \<and> kz_get_children k (path c) = Inr names \<and> n \<in> set names"
  let ?c1 = "snd (store z k1 t1 n v1 c)"
  let ?c2 = "snd (store z k2 t2 n v2 ?c1)"
  have c1: "?c1 = c\<lparr> incoming_entries := incoming_entries c @ [(n, t1)] \<rparr>"
    using a store_pushed [of z k1 c n v1 t1] by simp
  have c2: "path ?c2 = path c \<and> entries ?c2 = entries c
      \<and> (incoming_entries ?c2 = incoming_entries c @ [(n, t1)]
         \<or> incoming_entries ?c2 = (incoming_entries c @ [(n, t1)]) @ [(n, t2)])"
    using store_keeps_tracking [of z k2 t2 n v2 ?c1] by (simp add: c1)
  then have "map_of (incoming_entries ?c2) n = Some t1"
    using a by (auto simp: map_add_def)
  with c2 a have drained:
    "map_of (drain_incoming (incoming_entries ?c2) (entries ?c2)) n = Some t1"
    by (simp add: map_of_drain_incoming)
  from c2 a have "list_entries k ?c2 = Inr (remdups names)"
    by (simp add: list_entries_children)
  with a drained show "map_of (entries (snd (process z k clock ?c2))) n = Some t1"
    by (simp add: process_tracked_listed)
qed

theorem first_seen_never_overwritten_witness:
  "store_pushes kazoo_ok (os_path_join (path empty_cache) ''p01'') ''v1''
   \<and> kz_get_children (kazoo_lists [''p01'']) (path empty_cache) = Inr [''p01'']
   \<and> incoming_entries (snd (store connected_client kazoo_ok 8 ''p01'' ''v2''
          (snd (store connected_client kazoo_ok 3 ''p01'' ''v1'' empty_cache))))
       = [(''p01'', 3), (''p01'', 8)]
   \<and> map_of (entries (snd (process connected_client (kazoo_lists [''p01'']) (\<lambda>n. 9)
          (snd (store connected_client kazoo_ok 8 ''p01'' ''v2''
             (snd (store connected_client kazoo_ok 3 ''p01'' ''v1'' empty_cache))))))) ''p01''
       = Some 3
   \<and> map_of (drain_incoming [(''new'', 7)] [(''old'', 0), (''new'', 5)]) ''new'' = Some (5::int)"
  using first_seen_never_overwritten
    [where c = empty_cache and n = "''p01''" and z = connected_client and ?k1.0 = kazoo_ok
       and ?k2.0 = kazoo_ok and ?v1.0 = "''v1''" and ?v2.0 = "''v2''" and ?t1.0 = 3 and ?t2.0 = 8
       and k = "kazoo_lists [''p01'']" and clock = "\<lambda>n. 9" and names = "[''p01'']"
       and es = "[(''old'', 0), (''new'', 5)]" and q = "[(''new'', 7)]" and ts = 5]
  by (simp add: store_pushes_def kazoo_ok_def kazoo_lists_def empty_cache_def
        connected_client_def init_def store_def is_connected_def setdefault_def
        dict_keys_def Let_def)

text \<open>
  Claim C3. If \<^verbatim>\<open>process()\<close> runs with a connection on a cache whose store
  children are \<open>names\<close> when they are listed (none when the cache directory does
  not exist yet), and the fetch of every listed name that is not yet tracked succeeds,
  then \<^verbatim>\<open>process()\<close> returns normally and the key set of the timestamp dictionary
  is exactly the set of listed names: every name tracked before but not listed is
  removed, and every listed name not tracked before is inserted.
\<close>

theorem process_key_set:
  assumes "connected z"
    and "kz_get_children k (path c) = Inr names
         \<or> (kz_get_children k (path c) = Inl NoNodeError \<and> names = [])"
    and "\<forall>n \<in> set names.
           n \<notin> set (dict_keys (drain_incoming (incoming_entries c) (entries c))) \<longrightarrow>
           (\<exists>d. kz_get k (os_path_join (path c) n) = Inr d)"
  shows "fst (process z k clock c) = Inr ()
       \<and> set (dict_keys (entries (snd (process z k clock c)))) = set names
       \<and> (\<forall>n. n \<in> set (dict_keys (entries c)) \<and> n \<notin> set names \<longrightarrow>
              map_of (entries (snd (process z k clock c))) n = None)
       \<and> (\<forall>n \<in> set names. n \<notin> set (dict_keys (entries c)) \<longrightarrow>
              map_of (entries (snd (process z k clock c))) n \<noteq> None)"
proof -
  let ?drained = "drain_incoming (incoming_entries c) (entries c)"
  let ?previous = "remdups (dict_keys ?drained)"
  let ?current = "remdups names"
  let ?c2 = "c\<lparr> incoming_entries := [],
                 entries := fold dict_remove (filter (\<lambda>n. n \<notin> set ?current) ?previous) ?drained \<rparr>"
  let ?fresh = "filter (\<lambda>n. n \<notin> set ?previous) ?current"
  have listed: "list_entries k c = Inr ?current"
    using assms(2) by (auto simp: list_entries_children list_entries_absent)
  have "\<forall>n \<in> set ?fresh. \<exists>d. kz_get k (os_path_join (path ?c2) n) = Inr d"
    using assms(3) by simp
  from handle_loop_all_found [OF this, of clock "[]"]
  obtain ds where ret: "fst (handle_loop k clock ?fresh [] ?c2) = Inr ds"
    and keys: "set (dict_keys (entries (snd (handle_loop k clock ?fresh [] ?c2))))
         = set (dict_keys (entries ?c2)) \<union> set ?fresh"
    by blast
  have "set (dict_keys (entries ?c2)) \<union> set ?fresh = set names"
    by (auto simp: dict_keys_fold_dict_remove)
  with keys have k1: "set (dict_keys (entries (snd (process z k clock c)))) = set names"
    by (simp add: process_listed [OF assms(1) listed] Let_def handle_entries_entries)
  have r1: "fst (process z k clock c) = Inr ()"
    using handle_entries_returns [OF ret]
    by (simp add: process_listed [OF assms(1) listed] Let_def)
  have "map_of (entries (snd (process z k clock c))) n = None \<longleftrightarrow> n \<notin> set names" for n
    using k1 dict_keys_map_of [of n "entries (snd (process z k clock c))"] by simp
  with k1 r1 show ?thesis by simp
qed

theorem process_key_set_witness:
  "connected connected_client
   \<and> kz_get_children (kazoo_lists [''new'', ''p01'', ''p02'']) (path busy_cache)
       = Inr [''new'', ''p01'', ''p02'']
   \<and> fst (process connected_client (kazoo_lists [''new'', ''p01'', ''p02'']) (\<lambda>n. 9) busy_cache)
       = Inr ()
   \<and> entries (snd (process connected_client (kazoo_lists [''new'', ''p01'', ''p02''])
         (\<lambda>n. 9) busy_cache))
       = [(''new'', 5), (''p01'', 6), (''p02'', 9)]
   \<and> set (dict_keys (entries (snd (process connected_client
         (kazoo_lists [''new'', ''p01'', ''p02'']) (\<lambda>n. 9) busy_cache))))
       = {''new'', ''p01'', ''p02''}"
proof -
  have run: "process connected_client (kazoo_lists [''new'', ''p01'', ''p02'']) (\<lambda>n. 9) busy_cache
      = (Inr (), busy_cache \<lparr> entries := [(''new'', 5), (''p01'', 6), (''p02'', 9)],
                             incoming_entries := [], handled := [[[]]] \<rparr>)"
    by (simp add: process_def is_connected_def connected_client_def init_def busy_cache_def
          empty_cache_def kazoo_lists_def kazoo_ok_def list_entries_def handle_entries_def
          get_def setdefault_def dict_keys_def dict_remove_def Let_def)
  have c: "connected connected_client"
    by (simp add: connected_client_def)
  have l: "kz_get_children (kazoo_lists [''new'', ''p01'', ''p02'']) (path busy_cache)
       = Inr [''new'', ''p01'', ''p02'']"
    by (simp add: kazoo_lists_def)
  have g: "\<forall>n \<in> set [''new'', ''p01'', ''p02''].
      n \<notin> set (dict_keys (drain_incoming (incoming_entries busy_cache) (entries busy_cache)))
      \<longrightarrow> (\<exists>d. kz_get (kazoo_lists [''new'', ''p01'', ''p02''])
                  (os_path_join (path busy_cache) n) = Inr d)"
    by (simp add: kazoo_lists_def kazoo_ok_def)
  from process_key_set [OF c disjI1 [OF l] g, of "\<lambda>n. 9"] run c l
  show ?thesis by simp
qed


lemma distinct_setdefault:
  "distinct (dict_keys d) \<Longrightarrow> distinct (dict_keys (setdefault k v d))"
  by (simp add: setdefault_def dict_keys_def)

lemma distinct_dict_remove:
  "distinct (dict_keys d) \<Longrightarrow> distinct (dict_keys (dict_remove k d))"
  by (simp add: dict_remove_def dict_keys_def distinct_map_filter)

lemma distinct_fold_dict_remove:
  "distinct (dict_keys d) \<Longrightarrow> distinct (dict_keys (fold dict_remove ks d))"
  by (induction ks arbitrary: d) (simp_all add: distinct_dict_remove)

lemma distinct_drain_incoming:
  "distinct (dict_keys es) \<Longrightarrow> distinct (dict_keys (drain_incoming q es))"
  by (induction q es rule: drain_incoming.induct) (simp_all add: distinct_setdefault)

lemma distinct_get:
  "distinct (dict_keys (entries c)) \<Longrightarrow>
     distinct (dict_keys (entries (snd (get k now name c))))"
  by (simp add: get_def distinct_setdefault distinct_dict_remove split: sum.splits)

lemma distinct_handle_loop:
  "distinct (dict_keys (entries c)) \<Longrightarrow>
     distinct (dict_keys (entries (snd (handle_loop k clock names data c))))"
proof (induction names arbitrary: data c)
  case Nil
  then show ?case by simp
next
  case (Cons name rest)
  obtain r c' where g: "get k (clock name) name c = (r, c')"
    by (cases "get k (clock name) name c")
  have d: "distinct (dict_keys (entries c'))"
    using distinct_get [OF Cons.prems, of k "clock name" name] g by simp
  have "\<And>data. distinct (dict_keys (entries (snd (handle_loop k clock rest data c'))))"
    using Cons.IH [OF d] .
  with g d show ?case by (simp split: sum.splits)
qed

text \<open>The operations keep the keys of the dictionary distinct.\<close>

lemma distinct_process:
  assumes "distinct (dict_keys (entries c))"
  shows "distinct (dict_keys (entries (snd (process z k clock c))))"
proof (cases "connected z")
  case False
  with assms show ?thesis by (simp add: process_disconnected)
next
  case True
  have drained: "distinct (dict_keys (drain_incoming (incoming_entries c) (entries c)))"
    using assms by (rule distinct_drain_incoming)
  show ?thesis
  proof (cases "list_entries k c")
    case (Inl e)
    with True drained show ?thesis by (simp add: process_list_fails)
  next
    case (Inr current)
    show ?thesis
      by (simp add: process_listed [OF True Inr] Let_def handle_entries_entries
            distinct_handle_loop distinct_fold_dict_remove drained)
  qed
qed

subsection \<open>The shared cache: expiry\<close>

lemma expire_loop_sweeps:
  "\<forall>kv \<in> set es. expired now ttl kv \<longrightarrow> kz_delete k (entry_path p kv) = None \<Longrightarrow>
     expire_loop k p now ttl es deleted
       = (Inr (), deleted @ map (entry_path p) (filter (expired now ttl) es))"
  by (induction k p now ttl es deleted rule: expire_loop.induct)
     (auto simp: expired_def entry_path_def Let_def)

lemma expire_loop_returned:
  "fst (expire_loop k p now ttl es deleted) = Inr () \<Longrightarrow>
     \<forall>kv \<in> set es. expired now ttl kv \<longrightarrow> kz_delete k (entry_path p kv) = None"
  by (induction k p now ttl es deleted rule: expire_loop.induct)
     (auto simp: expired_def entry_path_def Let_def split: option.splits if_splits)

lemma expire_loop_append:
  "\<forall>kv \<in> set before. expired now ttl kv \<longrightarrow> kz_delete k (entry_path p kv) = None \<Longrightarrow>
     expire_loop k p now ttl (before @ rest) deleted
       = expire_loop k p now ttl rest
           (deleted @ map (entry_path p) (filter (expired now ttl) before))"
  by (induction k p now ttl before deleted rule: expire_loop.induct)
     (auto simp: expired_def entry_path_def Let_def)

lemma expire_loop_aborts:
  assumes "expired now ttl kv" and "kz_delete k (entry_path p kv) = Some e"
  shows "expire_loop k p now ttl (kv # rest) deleted
     = (Inl (if e = NoNodeError then ZkNoNodeError else conn_error e), deleted)"
  using assms by (cases kv) (simp add: expired_def entry_path_def Let_def)

text \<open>
  Claim C4. Let \<^verbatim>\<open>expire(ttl)\<close> be called at time \<open>now\<close> on a connected
  cache. If it completes without error, the paths it deleted from the store are exactly
  those of the tracked entries with \<open>now - ts > ttl\<close>, so every tracked entry that
  survives in the store satisfies \<open>now - ts \<le> ttl\<close>; and it does complete when
  every such delete succeeds. If the delete of an expired entry fails, the sweep stops
  there, the later entries are not deleted, and the failure is raised:
  \<^verbatim>\<open>ZkNoNodeError\<close> for a missing node, \<^verbatim>\<open>ZkNoConnection\<close> for a lost
  connection or session. The sweep itself does not write the timestamp dictionary; the
  names it expired leave the dictionary in the next \<^verbatim>\<open>process()\<close>.
\<close>

theorem expire_ttl_bound:
  fixes now ttl :: "'t::{minus,linorder}"
  assumes "connected z"
  shows "(fst (expire z k now ttl c) = Inr () \<longrightarrow>
            snd (expire z k now ttl c)
              = map (entry_path (path c)) (filter (expired now ttl) (entries c))
            \<and> (\<forall>kv \<in> set (entries c). now - snd kv > ttl \<longrightarrow>
                  entry_path (path c) kv \<in> set (snd (expire z k now ttl c)))
            \<and> (\<forall>kv \<in> set (entries c).
                  entry_path (path c) kv \<notin> set (snd (expire z k now ttl c)) \<longrightarrow>
                  now - snd kv \<le> ttl))
       \<and> ((\<forall>kv \<in> set (entries c). expired now ttl kv \<longrightarrow>
               kz_delete k (entry_path (path c) kv) = None) \<longrightarrow>
            fst (expire z k now ttl c) = Inr ())
       \<and> (\<forall>before kv rest e.
            entries c = before @ kv # rest
            \<and> (\<forall>b \<in> set before. expired now ttl b \<longrightarrow>
                  kz_delete k (entry_path (path c) b) = None)
            \<and> expired now ttl kv \<and> kz_delete k (entry_path (path c) kv) = Some e \<longrightarrow>
            expire z k now ttl c
              = (Inl (if e = NoNodeError then ZkNoNodeError
                      else if e = ConnectionLoss \<or> e = SessionExpiredError
                      then ZkNoConnection else Uncaught e),
                 map (entry_path (path c)) (filter (expired now ttl) before)))"
proof (intro conjI impI allI)
  assume ok: "fst (expire z k now ttl c) = Inr ()"
  with assms have "fst (expire_loop k (path c) now ttl (entries c) []) = Inr ()"
    by (simp add: expire_def is_connected_def)
  then have "\<forall>kv \<in> set (entries c). expired now ttl kv \<longrightarrow>
      kz_delete k (entry_path (path c) kv) = None"
    by (rule expire_loop_returned)
  then have "expire_loop k (path c) now ttl (entries c) []
      = (Inr (), [] @ map (entry_path (path c)) (filter (expired now ttl) (entries c)))"
    by (rule expire_loop_sweeps)
  with assms show swept: "snd (expire z k now ttl c)
      = map (entry_path (path c)) (filter (expired now ttl) (entries c))"
    by (simp add: expire_def is_connected_def)
  show "\<forall>kv \<in> set (entries c). now - snd kv > ttl \<longrightarrow>
      entry_path (path c) kv \<in> set (snd (expire z k now ttl c))"
    by (auto simp: swept expired_def)
  show "\<forall>kv \<in> set (entries c).
      entry_path (path c) kv \<notin> set (snd (expire z k now ttl c)) \<longrightarrow> now - snd kv \<le> ttl"
  proof (intro ballI impI)
    fix kv
    assume "kv \<in> set (entries c)"
      and "entry_path (path c) kv \<notin> set (snd (expire z k now ttl c))"
    then have "\<not> expired now ttl kv"
      by (auto simp: swept)
    then show "now - snd kv \<le> ttl"
      by (simp add: expired_def not_less)
  qed
next
  assume "\<forall>kv \<in> set (entries c). expired now ttl kv \<longrightarrow>
      kz_delete k (entry_path (path c) kv) = None"
  then have "expire_loop k (path c) now ttl (entries c) []
      = (Inr (), [] @ map (entry_path (path c)) (filter (expired now ttl) (entries c)))"
    by (rule expire_loop_sweeps)
  with assms show "fst (expire z k now ttl c) = Inr ()"
    by (simp add: expire_def is_connected_def)
next
  fix before kv rest e
  assume a: "entries c = before @ kv # rest
            \<and> (\<forall>b \<in> set before. expired now ttl b \<longrightarrow>
                  kz_delete k (entry_path (path c) b) = None)
            \<and> expired now ttl kv \<and> kz_delete k (entry_path (path c) kv) = Some e"
  then have "expire_loop k (path c) now ttl (before @ kv # rest) []
      = expire_loop k (path c) now ttl (kv # rest)
          ([] @ map (entry_path (path c)) (filter (expired now ttl) before))"
    by (intro expire_loop_append) simp
  also have "\<dots> = (Inl (if e = NoNodeError then ZkNoNodeError else conn_error e),
      [] @ map (entry_path (path c)) (filter (expired now ttl) before))"
    using a by (intro expire_loop_aborts) simp_all
  finally show "expire z k now ttl c
              = (Inl (if e = NoNodeError then ZkNoNodeError
                      else if e = ConnectionLoss \<or> e = SessionExpiredError
                      then ZkNoConnection else Uncaught e),
                 map (entry_path (path c)) (filter (expired now ttl) before))"
    using assms a by (simp add: expire_def is_connected_def conn_error_def)
qed

theorem expire_ttl_bound_witness:
  "connected connected_client
   \<and> expire connected_client kazoo_ok 6 3 tracked_cache = (Inr (), [''/1-11/bs/pcbs/old''])
   \<and> entry_path (path tracked_cache) (''new'', 5::int)
        \<notin> set (snd (expire connected_client kazoo_ok 6 3 tracked_cache))
   \<and> (6::int) - 5 \<le> 3
   \<and> expire connected_client (kazoo_ok \<lparr> kz_delete := (\<lambda>p. Some NoNodeError) \<rparr>) 6 3 tracked_cache
       = (Inl ZkNoNodeError, [])
   \<and> expire connected_client (kazoo_ok \<lparr> kz_delete := (\<lambda>p. Some ConnectionLoss) \<rparr>) 6 3
        tracked_cache
       = (Inl ZkNoConnection, [])"
  using expire_ttl_bound [of connected_client kazoo_ok 6 3 tracked_cache]
  by (simp add: connected_client_def init_def kazoo_ok_def tracked_cache_def empty_cache_def
        expire_def is_connected_def os_path_join_def entry_path_def conn_error_def
        expired_def)

end
